theory Spec2Isabelle
  imports Complex_Main "HOL-Library.Multiset"
begin

section \<open>Arrays, outcomes and the linear algebra the solver uses\<close>

text \<open>
  The decoder works on numpy arrays of floats. The embedding takes the entries to be
  real numbers: a one-dimensional array is a list, a matrix is the list of its rows.
  Rounding is therefore not modelled, and neither are the values \<open>inf\<close> and
  \<open>nan\<close>: where numpy would produce one of them (a division by zero, which
  numpy reports by a warning and not by an exception), the model stops with the outcome
  \<open>NonFinite\<close>. The other outcomes on the left of the sum are the exceptions
  the Python code raises.

  All arrays are taken to be well shaped (\<open>C_yy\<close> is square of the size of
  \<open>C_yx\<close> and \<open>s_y\<close>); numpy's shape errors are not modelled.
\<close>

type_synonym vec = "real list"
type_synonym mat = "real list list"
type_synonym ten3 = "real list list list"

datatype failure =
    ValueError string
  | NameError string
  | UnboundLocalError string
  | NonFinite

text \<open>\<open>u @ v\<close> for two vectors, \<open>M @ v\<close> and \<open>v @ M\<close>.\<close>

definition dot :: "vec \<Rightarrow> vec \<Rightarrow> real" where
  "dot u v = sum_list (map2 (*) u v)"

definition matvec :: "mat \<Rightarrow> vec \<Rightarrow> vec" where
  "matvec M v = map (\<lambda>row. dot row v) M"

definition vecmat :: "vec \<Rightarrow> mat \<Rightarrow> vec" where
  "vecmat v M = map (dot v) (transpose M)"

text \<open>\<open>np.all(C == 0)\<close>; true of an array without entries.\<close>

definition all_zero :: "mat \<Rightarrow> bool" where
  "all_zero C = list_all (list_all (\<lambda>x. x = 0)) C"

text \<open>\<open>v / c\<close> for an array and a scalar, and \<open>a / b\<close> entry by entry.\<close>

definition vdiv :: "vec \<Rightarrow> real \<Rightarrow> failure + vec" where
  "vdiv v c = (if v \<noteq> [] \<and> c = 0 then Inl NonFinite else Inr (map (\<lambda>x. x / c) v))"

definition vdiv_elem :: "vec \<Rightarrow> vec \<Rightarrow> failure + vec" where
  "vdiv_elem a b =
     (if list_ex (\<lambda>y. y = 0) (map snd (zip a b)) then Inl NonFinite
      else Inr (map2 (/) a b))"

text \<open>
  \<open>np.linalg.pinv\<close> belongs to numpy; the solver is modelled for any function in its
  place. \<open>pinv_diag\<close> is the pseudo-inverse of a diagonal matrix (the reciprocal of
  every non-zero entry), used where a concrete run is evaluated on diagonal matrices.
\<close>

definition pinv_diag :: "mat \<Rightarrow> mat" where
  "pinv_diag M = map (map (\<lambda>x. if x = 0 then 0 else 1 / x)) M"

section \<open>The constrained weight solver \<open>nonneglsopt\<close>\<close>

text \<open>\<open>C_xx - 2*C_yx@s_y + s_y.T@C_yy@s_y\<close>\<close>

definition objective :: "real \<Rightarrow> vec \<Rightarrow> mat \<Rightarrow> vec \<Rightarrow> real" where
  "objective C_xx C_yx C_yy s_y =
     C_xx - dot (map (\<lambda>x. 2 * x) C_yx) s_y + dot (vecmat s_y C_yy) s_y"

text \<open>\<open>C_yy.copy() + np.eye(C_yy.shape[0])*ridge\<close>\<close>

definition add_ridge :: "mat \<Rightarrow> real \<Rightarrow> mat" where
  "add_ridge C ridge =
     map (\<lambda>(i, row). map (\<lambda>(j, x). x + (if i = j then 1 else 0) * ridge)
                         (zip [0..<length row] row))
         (zip [0..<length C] C)"

text \<open>\<open>np.diag(C)\<close> and \<open>np.mean\<close>\<close>

definition diag_of :: "mat \<Rightarrow> vec" where
  "diag_of C = map (\<lambda>(i, row). row ! i) (zip [0..<length C] C)"

definition mean :: "vec \<Rightarrow> real" where
  "mean v = sum_list v / real (length v)"

text \<open>\<open>C_yy + np.diag(s_y<0).astype(s_y.dtype)*np.mean(np.diag(C_yy))*10\<close>\<close>

definition negridge :: "mat \<Rightarrow> vec \<Rightarrow> mat" where
  "negridge C s_y =
     map (\<lambda>(i, row). map (\<lambda>(j, x). x + (if i = j \<and> s_y ! i < 0 then 1 else 0)
                                          * mean (diag_of C) * 10)
                         (zip [0..<length row] row))
         (zip [0..<length C] C)"

text \<open>
  One pass through the chain of \<open>if syopt == ...\<close> tests in the loop body. The name
  \<open>eta\<close> is neither a parameter nor a local of \<open>nonneglsopt\<close>, and the module binds no
  global of that name, so the two branches that read it raise \<open>NameError\<close> when the
  expression is evaluated (after \<open>ds_y\<close> has been computed).
\<close>

definition update_rule :: "(mat \<Rightarrow> mat) \<Rightarrow> vec \<Rightarrow> mat \<Rightarrow> string \<Rightarrow> vec \<Rightarrow> failure + vec" where
  "update_rule pinv C_yx C_yy syopt s_y =
     (if syopt = ''ls'' then Inr (matvec (pinv C_yy) C_yx)
      else if syopt = ''lspos'' then
        Inr (map (\<lambda>x. max x 0) (matvec (pinv C_yy) C_yx))
      else if syopt = ''expgrad'' then
        (let ds_y = map2 (-) (matvec C_yy s_y) C_yx in Inl (NameError ''eta''))
      else if syopt = ''gd'' then
        (let ds_y = map2 (-) (matvec C_yy s_y) C_yx in Inl (NameError ''eta''))
      else if syopt = ''mu'' then
        vdiv_elem (map2 (*) s_y (map abs C_yx))
                  (map (\<lambda>x. x + 1 / 10 ^ 6) (matvec C_yy s_y))
      else if syopt = ''irwls'' \<or> syopt = ''negridge'' then
        Inr (matvec (pinv (negridge C_yy s_y)) C_yx)
      else Inl (ValueError (''unknown optimization type: '' @ syopt)))"

text \<open>
  The loop \<open>for iter in range(max_iter)\<close>: the first numeric argument counts the
  iterations that remain. Each pass applies the update rule, projects onto the sum
  constraint \<open>(s_y + eps) / np.sum(s_y + eps)\<close>, recomputes the objective and leaves the
  loop when \<open>np.abs(oJ-J) < tol\<close>.
\<close>

fun nnls_iterate ::
  "(mat \<Rightarrow> mat) \<Rightarrow> real \<Rightarrow> vec \<Rightarrow> mat \<Rightarrow> string \<Rightarrow> real \<Rightarrow> real \<Rightarrow> nat \<Rightarrow> vec \<Rightarrow> real
     \<Rightarrow> failure + vec" where
  "nnls_iterate pinv C_xx C_yx C_yy syopt tol eps 0 s_y J = Inr s_y"
| "nnls_iterate pinv C_xx C_yx C_yy syopt tol eps (Suc n) s_y J =
     (case update_rule pinv C_yx C_yy syopt s_y of
        Inl e \<Rightarrow> Inl e
      | Inr s1 \<Rightarrow>
          (case vdiv (map (\<lambda>x. x + eps) s1) (sum_list (map (\<lambda>x. x + eps) s1)) of
             Inl e \<Rightarrow> Inl e
           | Inr s2 \<Rightarrow>
               (let J' = objective C_xx C_yx C_yy s2 in
                if \<bar>J - J'\<bar> < tol then Inr s2
                else nnls_iterate pinv C_xx C_yx C_yy syopt tol eps n s2 J')))"

text \<open>
  \<open>nonneglsopt(C_xx, C_yx, C_yy, s_y, syopt, max_iter, tol, ridge, eps)\<close>. A \<open>syopt\<close>
  of \<open>None\<close> stands for \<open>'negridge'\<close>; an all-zero \<open>C_yy\<close> returns \<open>s_y\<close> at once;
  otherwise the ridge is added, the loop runs, and the result is clamped from below by
  \<open>1e-6\<close> and divided by its sum.
\<close>

definition nonneglsopt ::
  "(mat \<Rightarrow> mat) \<Rightarrow> real \<Rightarrow> vec \<Rightarrow> mat \<Rightarrow> vec \<Rightarrow> string option \<Rightarrow> nat \<Rightarrow> real \<Rightarrow> real \<Rightarrow> real
     \<Rightarrow> failure + vec" where
  "nonneglsopt pinv C_xx C_yx C_yy s_y syopt max_iter tol ridge eps =
     (let mode = (case syopt of None \<Rightarrow> ''negridge'' | Some m \<Rightarrow> m) in
      if all_zero C_yy then Inr s_y
      else
        (let C_r = add_ridge C_yy ridge;
             J = objective C_xx C_yx C_r s_y
         in case nnls_iterate pinv C_xx C_yx C_r mode tol eps max_iter s_y J of
              Inl e \<Rightarrow> Inl e
            | Inr s \<Rightarrow>
                (let s' = map (\<lambda>x. max (1 / 10 ^ 6) x) s in vdiv s' (sum_list s'))))"

text \<open>The call with the defaults of the signature, as \<open>levelsCCA_cov\<close> makes it.\<close>

definition nonneglsopt_dflt ::
  "(mat \<Rightarrow> mat) \<Rightarrow> real \<Rightarrow> vec \<Rightarrow> mat \<Rightarrow> vec \<Rightarrow> string option \<Rightarrow> failure + vec" where
  "nonneglsopt_dflt pinv C_xx C_yx C_yy s_y syopt =
     nonneglsopt pinv C_xx C_yx C_yy s_y syopt 30 (1 / 10 ^ 4) (1 / 10 ^ 4) (1 / 10 ^ 3)"

section \<open>The alternating optimiser \<open>levelsCCA_cov\<close>\<close>

text \<open>
  The optimiser delegates its linear algebra to numpy (\<open>einsum\<close>, \<open>svd\<close>,
  \<open>argsort\<close>, \<open>pinv\<close>) and to two functions of the decoder package
  (\<open>robust_whitener\<close>, \<open>Cyy_tyeye_diag2full\<close>). For fixed inputs
  \<open>Cxx_dd\<close>, \<open>Cyx_yetd\<close>, \<open>Cyy_tyeye\<close>, \<open>reg\<close> and \<open>rcond\<close> these
  steps are functions of the loop variables only, and the model takes them as a record
  of collaborators:
  \<^item> \<open>svd_step\<close>: from the current \<open>S_y\<close> to \<open>(R_ket, l_k, W_kd)\<close> as they stand
    after \<open>np.linalg.svd\<close> and the \<open>moveaxis\<close> (contraction with \<open>S_y\<close>, whitening,
    SVD);
  \<^item> \<open>unwhiten\<close>: the two \<open>einsum\<close> calls that apply the whiteners to the selected
    \<open>R_ket\<close> and \<open>W_kd\<close> (the right whitener depends on \<open>S_y\<close>);
  \<^item> \<open>reduced_stats\<close>: from \<open>(R_ket, W_kd)\<close> to \<open>(wCxxw, rCyyr_yy, rCyxw_y)\<close>;
  \<^item> \<open>argsort_op\<close> and \<open>pinv_op\<close>: \<open>np.argsort\<close> and \<open>np.linalg.pinv\<close>.
  Component selection, the weight update, the convergence test, the initial state and
  the final rescaling are modelled as the source writes them. Plotting and printing
  are left out (\<open>showplots\<close> is \<open>False\<close>).
\<close>

record collab =
  svd_step :: "vec \<Rightarrow> ten3 \<times> vec \<times> mat"
  unwhiten :: "vec \<Rightarrow> ten3 \<times> mat \<Rightarrow> ten3 \<times> mat"
  reduced_stats :: "ten3 \<times> mat \<Rightarrow> real \<times> mat \<times> vec"
  argsort_op :: "vec \<Rightarrow> nat list"
  pinv_op :: "mat \<Rightarrow> mat"

text \<open>
  The loop variables. \<open>iter\<close>, \<open>l_k\<close>, \<open>W_kd\<close> and \<open>R_ket\<close> are unbound (\<open>None\<close>)
  until the first pass through the loop body; a row of the trace buffer \<open>Js\<close> that
  still holds \<open>nan\<close> is \<open>None\<close>.
\<close>

record lstate =
  S_y :: vec
  J :: real
  Js :: "(real \<times> real) option list"
  iter :: "nat option"
  l_k :: "vec option"
  W_kd :: "mat option"
  R_ket :: "ten3 option"

text \<open>
  The state before the loop: \<open>J = 1e9\<close>, \<open>Js\<close> filled with \<open>nan\<close>, and
  \<open>S_y = np.ones((nY))/nY\<close> when the caller passes no seed. \<open>nY\<close> is
  \<open>Cyy_tyeye.shape[-2]\<close>.
\<close>

definition init_state :: "nat \<Rightarrow> vec option \<Rightarrow> nat \<Rightarrow> lstate" where
  "init_state nY seed max_iter =
     \<lparr> S_y = (case seed of None \<Rightarrow> replicate nY (1 / real nY) | Some s \<Rightarrow> s),
       J = 10 ^ 9,
       Js = replicate max_iter None,
       iter = None, l_k = None, W_kd = None, R_ket = None \<rparr>"

text \<open>
  Component selection: \<open>l_idx = np.argsort(l_k)[::-1]\<close>, \<open>r = min(len(l_idx), rank)\<close>,
  then the three arrays are indexed by \<open>l_idx[:r]\<close> along their first axis.
\<close>

definition select_components ::
  "(vec \<Rightarrow> nat list) \<Rightarrow> nat \<Rightarrow> ten3 \<times> vec \<times> mat \<Rightarrow> ten3 \<times> vec \<times> mat" where
  "select_components argsort rank c =
     (case c of (R, l, W) \<Rightarrow>
        (let l_idx = rev (argsort l);
             r = min (length l_idx) rank;
             idx = take r l_idx
         in (map (\<lambda>i. R ! i) idx, map (\<lambda>i. l ! i) idx, map (\<lambda>i. W ! i) idx)))"

text \<open>
  The weight update of one iteration: the objective before the update, the call of the
  solver with its default parameters, \<open>S_y / np.sum(S_y)\<close>, and the objective after
  the update. The result is \<open>(J_wr, S_y, J_s)\<close>.
\<close>

definition weight_update ::
  "(mat \<Rightarrow> mat) \<Rightarrow> real \<Rightarrow> vec \<Rightarrow> mat \<Rightarrow> vec \<Rightarrow> string option \<Rightarrow> failure + (real \<times> vec \<times> real)" where
  "weight_update pinv wCxxw rCyxw_y rCyyr_yy s_old syopt =
     (let J_wr = objective wCxxw rCyxw_y rCyyr_yy s_old in
      case nonneglsopt_dflt pinv wCxxw rCyxw_y rCyyr_yy s_old syopt of
        Inl e \<Rightarrow> Inl e
      | Inr s \<Rightarrow>
          (case vdiv s (sum_list s) of
             Inl e \<Rightarrow> Inl e
           | Inr s_new \<Rightarrow> Inr (J_wr, s_new, objective wCxxw rCyxw_y rCyyr_yy s_new)))"

text \<open>One pass through the loop body, for the loop index \<open>it\<close>.\<close>

definition levels_body :: "collab \<Rightarrow> nat \<Rightarrow> string option \<Rightarrow> nat \<Rightarrow> lstate \<Rightarrow> failure + lstate" where
  "levels_body ops rank syopt it st =
     (case select_components (argsort_op ops) rank (svd_step ops (S_y st)) of
        (R_sel, l_sel, W_sel) \<Rightarrow>
          (case unwhiten ops (S_y st) (R_sel, W_sel) of
             (R, W) \<Rightarrow>
               (case reduced_stats ops (R, W) of
                  (wCxxw, rCyyr_yy, rCyxw_y) \<Rightarrow>
                    (case weight_update (pinv_op ops) wCxxw rCyxw_y rCyyr_yy (S_y st) syopt of
                       Inl e \<Rightarrow> Inl e
                     | Inr (J_wr, s_new, J_s) \<Rightarrow>
                         Inr (st\<lparr> S_y := s_new, J := J_s,
                                  Js := (Js st)[it := Some (J_wr, J_s)],
                                  iter := Some it,
                                  l_k := Some l_sel, W_kd := Some W, R_ket := Some R \<rparr>)))))"

text \<open>
  The convergence test at the end of the body, between the state \<open>old\<close> the pass
  started from and the state \<open>new\<close> it produced:
  \<open>deltaS_y < tol or deltaJ < tol\<close>.
\<close>

definition deltaS_y :: "lstate \<Rightarrow> lstate \<Rightarrow> real" where
  "deltaS_y old new = sum_list (map abs (map2 (-) (S_y new) (S_y old)))"

definition deltaJ :: "lstate \<Rightarrow> lstate \<Rightarrow> real" where
  "deltaJ old new = \<bar>J new - J old\<bar>"

definition converged :: "real \<Rightarrow> lstate \<Rightarrow> lstate \<Rightarrow> bool" where
  "converged tol old new = (deltaS_y old new < tol \<or> deltaJ old new < tol)"

text \<open>
  The loop \<open>for iter in range(max_iter)\<close> with its \<open>break\<close>: \<open>n\<close> passes remain and
  the next pass has index \<open>it\<close>.
\<close>

fun levels_loop ::
  "collab \<Rightarrow> nat \<Rightarrow> string option \<Rightarrow> real \<Rightarrow> nat \<Rightarrow> nat \<Rightarrow> lstate \<Rightarrow> failure + lstate" where
  "levels_loop ops rank syopt tol 0 it st = Inr st"
| "levels_loop ops rank syopt tol (Suc n) it st =
     (case levels_body ops rank syopt it st of
        Inl e \<Rightarrow> Inl e
      | Inr st' \<Rightarrow>
          if converged tol st st' then Inr st'
          else levels_loop ops rank syopt tol n (Suc it) st')"

text \<open>\<open>np.max\<close>, which raises on an array without entries.\<close>

fun np_max :: "vec \<Rightarrow> failure + real" where
  "np_max [] =
     Inl (ValueError ''zero-size array to reduction operation maximum which has no identity'')"
| "np_max (x # xs) = Inr (fold max xs x)"

text \<open>
  The rescaling after the loop:
  \<open>nl_k = (l_k / np.max(l_k)) if np.max(l_k)>0 else np.ones(...)\<close>, then every row of
  \<open>W_kd\<close> and every slice of \<open>R_ket\<close> is multiplied by \<open>np.sqrt(nl_k)\<close> of its
  component. The square root of a negative number is \<open>nan\<close> in numpy.
\<close>

definition relative_weights :: "vec \<Rightarrow> failure + vec" where
  "relative_weights l =
     (case np_max l of
        Inl e \<Rightarrow> Inl e
      | Inr m \<Rightarrow> Inr (if m > 0 then map (\<lambda>x. x / m) l else replicate (length l) 1))"

definition rescale :: "vec \<Rightarrow> mat \<Rightarrow> ten3 \<Rightarrow> failure + (mat \<times> ten3)" where
  "rescale l W R =
     (case relative_weights l of
        Inl e \<Rightarrow> Inl e
      | Inr nl_k \<Rightarrow>
          if list_ex (\<lambda>x. x < 0) nl_k then Inl NonFinite
          else Inr (map2 (\<lambda>n row. map (\<lambda>w. w * sqrt n) row) nl_k W,
                    map2 (\<lambda>n sl. map (map (\<lambda>x. x * sqrt n)) sl) nl_k R))"

text \<open>
  \<open>levelsCCA_cov\<close>: \<open>rank = int(max(1, rank))\<close>, the initial state, the loop, the
  rescaling, and the result \<open>(J, W_kd, R_ket, S_y)\<close>. With \<open>max_iter = 0\<close> the loop
  body never binds \<open>l_k\<close>, and the rescaling raises \<open>UnboundLocalError\<close>.
\<close>

definition levelsCCA_cov ::
  "collab \<Rightarrow> nat \<Rightarrow> vec option \<Rightarrow> int \<Rightarrow> real \<Rightarrow> nat \<Rightarrow> string option
     \<Rightarrow> failure + (real \<times> mat \<times> ten3 \<times> vec)" where
  "levelsCCA_cov ops nY seed rank tol max_iter syopt =
     (case levels_loop ops (nat (max 1 rank)) syopt tol max_iter 0
             (init_state nY seed max_iter) of
        Inl e \<Rightarrow> Inl e
      | Inr st \<Rightarrow>
          (case (l_k st, W_kd st, R_ket st) of
             (Some l, Some W, Some R) \<Rightarrow>
               (case rescale l W R of
                  Inl e \<Rightarrow> Inl e
                | Inr (W', R') \<Rightarrow> Inr (J st, W', R', S_y st))
           | _ \<Rightarrow> Inl (UnboundLocalError ''l_k'')))"

section \<open>The two functions over an explicit store\<close>

text \<open>
  numpy arrays are mutable objects that the caller and the callee share. To state what
  a run leaves unchanged, the two functions are modelled a second time over a store: a
  list of arrays, an address being a position in it. An expression that builds an array
  stores its value at a fresh address (\<open>alloc\<close>); an assignment to a name rebinds
  the name to an address and changes no array; the only statements that write into an
  existing array are \<open>Js[:] = np.nan\<close> and \<open>Js[iter,:] = [J_wr,J_s]\<close>. The
  intermediate results of one numerical step (the operands inside one expression, the
  weighted sums and whitened products that lead to the SVD) are new arrays that are
  read and never written in place: they are values inside that step and get no
  address. Floats are immutable and stay values.
\<close>

datatype ndarray =
    Vec vec
  | Mat mat
  | Ten3 ten3
  | Tens "nat list" "real list"
  | Trace "(real \<times> real) option list"

type_synonym addr = nat
type_synonym heap = "ndarray list"

definition alloc :: "ndarray \<Rightarrow> heap \<Rightarrow> addr \<times> heap" where
  "alloc v h = (length h, h @ [v])"

definition get_vec :: "heap \<Rightarrow> addr \<Rightarrow> vec" where
  "get_vec h a = (case h ! a of Vec v \<Rightarrow> v | _ \<Rightarrow> [])"

definition get_mat :: "heap \<Rightarrow> addr \<Rightarrow> mat" where
  "get_mat h a = (case h ! a of Mat m \<Rightarrow> m | _ \<Rightarrow> [])"

definition get_ten3 :: "heap \<Rightarrow> addr \<Rightarrow> ten3" where
  "get_ten3 h a = (case h ! a of Ten3 t \<Rightarrow> t | _ \<Rightarrow> [])"

definition get_trace :: "heap \<Rightarrow> addr \<Rightarrow> (real \<times> real) option list" where
  "get_trace h a = (case h ! a of Trace t \<Rightarrow> t | _ \<Rightarrow> [])"

text \<open>
  The solver loop: \<open>s_y\<close> is rebound twice in each pass, to the result of the update
  rule and to its projection; \<open>C_yx\<close> and the ridged \<open>C_yy\<close> are read.
\<close>

fun nnls_iterate_h ::
  "(mat \<Rightarrow> mat) \<Rightarrow> real \<Rightarrow> addr \<Rightarrow> addr \<Rightarrow> string \<Rightarrow> real \<Rightarrow> real \<Rightarrow> nat \<Rightarrow> addr \<Rightarrow> real
     \<Rightarrow> heap \<Rightarrow> failure + (addr \<times> heap)" where
  "nnls_iterate_h pinv C_xx a_yx a_yy syopt tol eps 0 a_s J0 h = Inr (a_s, h)"
| "nnls_iterate_h pinv C_xx a_yx a_yy syopt tol eps (Suc n) a_s J0 h =
     (case update_rule pinv (get_vec h a_yx) (get_mat h a_yy) syopt (get_vec h a_s) of
        Inl e \<Rightarrow> Inl e
      | Inr s1 \<Rightarrow>
          (case alloc (Vec s1) h of
             (a1, h1) \<Rightarrow>
               (case vdiv (map (\<lambda>x. x + eps) (get_vec h1 a1))
                          (sum_list (map (\<lambda>x. x + eps) (get_vec h1 a1))) of
                  Inl e \<Rightarrow> Inl e
                | Inr s2 \<Rightarrow>
                    (case alloc (Vec s2) h1 of
                       (a2, h2) \<Rightarrow>
                         (let J' = objective C_xx (get_vec h2 a_yx) (get_mat h2 a_yy)
                                     (get_vec h2 a2)
                          in if \<bar>J0 - J'\<bar> < tol then Inr (a2, h2)
                             else nnls_iterate_h pinv C_xx a_yx a_yy syopt tol eps n a2 J'
                                    h2)))))"

text \<open>
  \<open>nonneglsopt\<close> over the store. The early return hands back the very array it was
  given. \<open>C_yy = C_yy.copy() + np.eye(C_yy.shape[0])*ridge\<close> rebinds the local name
  \<open>C_yy\<close> to a new array; the array at \<open>a_yy\<close> is only read.
\<close>

definition nonneglsopt_h ::
  "(mat \<Rightarrow> mat) \<Rightarrow> real \<Rightarrow> addr \<Rightarrow> addr \<Rightarrow> addr \<Rightarrow> string option \<Rightarrow> nat \<Rightarrow> real \<Rightarrow> real \<Rightarrow> real
     \<Rightarrow> heap \<Rightarrow> failure + (addr \<times> heap)" where
  "nonneglsopt_h pinv C_xx a_yx a_yy a_s syopt max_iter tol ridge eps h =
     (let mode = (case syopt of None \<Rightarrow> ''negridge'' | Some m \<Rightarrow> m) in
      if all_zero (get_mat h a_yy) then Inr (a_s, h)
      else
        (case alloc (Mat (add_ridge (get_mat h a_yy) ridge)) h of
           (a_r, h1) \<Rightarrow>
             (let J0 = objective C_xx (get_vec h1 a_yx) (get_mat h1 a_r) (get_vec h1 a_s)
              in case nnls_iterate_h pinv C_xx a_yx a_r mode tol eps max_iter a_s J0 h1 of
                   Inl e \<Rightarrow> Inl e
                 | Inr (a, h2) \<Rightarrow>
                     (case alloc (Vec (map (\<lambda>x. max (1 / 10 ^ 6) x) (get_vec h2 a))) h2 of
                        (a', h3) \<Rightarrow>
                          (case vdiv (get_vec h3 a') (sum_list (get_vec h3 a')) of
                             Inl e \<Rightarrow> Inl e
                           | Inr v \<Rightarrow> Inr (alloc (Vec v) h3))))))"

text \<open>
  Modelled from the spec: \<open>robust_whitener\<close> and \<open>Cyy_tyeye_diag2full\<close> belong to
  this package but are not part of the sources at hand. The specification describes
  them by what they return (a whitening matrix; the expanded covariance tensor) and
  takes every input of the optimiser to be read only; accordingly they are functions
  from the contents of their argument to a new array (\<open>whiten_x\<close>, the whitener inside
  \<open>svd_of\<close>, and \<open>diag2full\<close>). The other fields stand for calls of numpy
  (\<open>einsum\<close>, \<open>svd\<close>, \<open>reshape\<close>, \<open>moveaxis\<close>, \<open>argsort\<close>, \<open>pinv\<close>), which do
  not write to their operands. All are functions of the arrays they are given:
  \<^item> \<open>diag2full\<close>: \<open>Cyy_tyeye_diag2full(Cyy_tyeye)\<close>;
  \<^item> \<open>whiten_x\<close>: \<open>robust_whitener(Cxx_dd, reg[0], rcond[0], symetric=True)\<close>;
  \<^item> \<open>prewhiten\<close>: \<open>CyxisqrtCxx_yetd\<close> from \<open>Cyx_yetd\<close> and \<open>isqrtCxx_dd\<close>;
  \<^item> \<open>whitened_cov\<close>: \<open>isqrtCxxCxxisqrtCxx_dd\<close> from \<open>isqrtCxx_dd\<close> and \<open>Cxx_dd\<close>;
  \<^item> \<open>svd_of\<close>: from \<open>Cyy_yetyet\<close>, \<open>CyxisqrtCxx_yetd\<close> and \<open>S_y\<close> to
    \<open>R_ket\<close>, \<open>l_k\<close>, \<open>W_kd\<close> after the SVD, and \<open>isqrtCyy_etet\<close>;
  \<^item> \<open>unwhiten_of\<close>: from \<open>isqrtCyy_etet\<close>, \<open>isqrtCxx_dd\<close> and the selected
    \<open>(R_ket, W_kd)\<close> to the unwhitened pair;
  \<^item> \<open>stats_of\<close>: from \<open>Cxx_dd\<close>, \<open>Cyx_yetd\<close>, \<open>Cyy_yetyet\<close> and \<open>(R_ket, W_kd)\<close>
    to \<open>(wCxxw, rCyyr_yy, rCyxw_y)\<close>.
\<close>

record numerics =
  diag2full :: "ndarray \<Rightarrow> ndarray"
  whiten_x :: "ndarray \<Rightarrow> ndarray"
  prewhiten :: "ndarray \<Rightarrow> ndarray \<Rightarrow> ndarray"
  whitened_cov :: "ndarray \<Rightarrow> ndarray \<Rightarrow> ndarray"
  svd_of :: "ndarray \<Rightarrow> ndarray \<Rightarrow> vec \<Rightarrow> (ten3 \<times> vec \<times> mat) \<times> ndarray"
  unwhiten_of :: "ndarray \<Rightarrow> ndarray \<Rightarrow> ten3 \<times> mat \<Rightarrow> ten3 \<times> mat"
  stats_of :: "ndarray \<Rightarrow> ndarray \<Rightarrow> ndarray \<Rightarrow> ten3 \<times> mat \<Rightarrow> real \<times> mat \<times> vec"
  argsort_of :: "vec \<Rightarrow> nat list"
  pinv_of :: "mat \<Rightarrow> mat"

text \<open>
  The addresses of the three inputs and of the arrays computed before the loop, and
  the loop variables: floats by value, arrays by address.
\<close>

record frame =
  Cxx_dd :: addr
  Cyx_yetd :: addr
  Cyy_yetyet :: addr
  isqrtCxx_dd :: addr
  CyxisqrtCxx_yetd :: addr

record hstate =
  S_y_ref :: addr
  J_val :: real
  Js_ref :: addr
  iter_val :: "nat option"
  l_k_ref :: "addr option"
  W_kd_ref :: "addr option"
  R_ket_ref :: "addr option"

text \<open>
  The first part of the loop body over the store, up to the reduced statistics: the
  arrays that stay bound after the pass (\<open>l_k\<close>, \<open>R_ket\<close>, \<open>W_kd\<close>, \<open>rCyyr_yy\<close>,
  \<open>rCyxw_y\<close>) are stored; \<open>wCxxw\<close> is a float. The result holds the addresses of
  \<open>l_k\<close>, \<open>R_ket\<close>, \<open>W_kd\<close>, then \<open>wCxxw\<close> and the addresses of \<open>rCyyr_yy\<close> and
  \<open>rCyxw_y\<close>.
\<close>

definition cca_step_h ::
  "numerics \<Rightarrow> frame \<Rightarrow> nat \<Rightarrow> addr \<Rightarrow> heap
     \<Rightarrow> (addr \<times> addr \<times> addr \<times> real \<times> addr \<times> addr) \<times> heap" where
  "cca_step_h num fr rank a_S h =
     (case svd_of num (h ! Cyy_yetyet fr) (h ! CyxisqrtCxx_yetd fr) (get_vec h a_S) of
        (c, isqrtCyy_etet) \<Rightarrow>
     (case select_components (argsort_of num) rank c of
        (R_sel, l_sel, W_sel) \<Rightarrow>
     (case alloc (Vec l_sel) h of
        (a_l, h1) \<Rightarrow>
     (case unwhiten_of num isqrtCyy_etet (h1 ! isqrtCxx_dd fr) (R_sel, W_sel) of
        (R, W) \<Rightarrow>
     (case alloc (Ten3 R) h1 of
        (a_R, h2) \<Rightarrow>
     (case alloc (Mat W) h2 of
        (a_W, h3) \<Rightarrow>
     (case stats_of num (h3 ! Cxx_dd fr) (h3 ! Cyx_yetd fr) (h3 ! Cyy_yetyet fr)
             (get_ten3 h3 a_R, get_mat h3 a_W) of
        (wCxxw, rCyyr_yy, rCyxw_y) \<Rightarrow>
     (case alloc (Mat rCyyr_yy) h3 of
        (a_yy, h4) \<Rightarrow>
     (case alloc (Vec rCyxw_y) h4 of
        (a_yx, h5) \<Rightarrow> ((a_l, a_R, a_W, wCxxw, a_yy, a_yx), h5))))))))))"

text \<open>
  The weight update over the store: the solver is called with the addresses of
  \<open>rCyxw_y\<close>, \<open>rCyyr_yy\<close> and the current \<open>S_y\<close>; \<open>S_y / np.sum(S_y)\<close> is a new
  array. The result is \<open>(J_wr, address of the new S_y, J_s)\<close>.
\<close>

definition weight_update_h ::
  "(mat \<Rightarrow> mat) \<Rightarrow> real \<Rightarrow> addr \<Rightarrow> addr \<Rightarrow> addr \<Rightarrow> string option \<Rightarrow> heap
     \<Rightarrow> failure + ((real \<times> addr \<times> real) \<times> heap)" where
  "weight_update_h pinv wCxxw a_yx a_yy a_S syopt h =
     (let J_wr = objective wCxxw (get_vec h a_yx) (get_mat h a_yy) (get_vec h a_S) in
      case nonneglsopt_h pinv wCxxw a_yx a_yy a_S syopt
             30 (1 / 10 ^ 4) (1 / 10 ^ 4) (1 / 10 ^ 3) h of
        Inl e \<Rightarrow> Inl e
      | Inr (a_s, h1) \<Rightarrow>
          (case vdiv (get_vec h1 a_s) (sum_list (get_vec h1 a_s)) of
             Inl e \<Rightarrow> Inl e
           | Inr s_new \<Rightarrow>
               (case alloc (Vec s_new) h1 of
                  (a_n, h2) \<Rightarrow>
                    Inr ((J_wr, a_n,
                          objective wCxxw (get_vec h2 a_yx) (get_mat h2 a_yy) (get_vec h2 a_n)),
                         h2))))"

text \<open>
  One pass through the loop body over the store. \<open>Js[iter,:] = [J_wr,J_s]\<close> writes
  into the trace buffer in place.
\<close>

definition levels_body_h ::
  "numerics \<Rightarrow> frame \<Rightarrow> nat \<Rightarrow> string option \<Rightarrow> nat \<Rightarrow> hstate \<Rightarrow> heap
     \<Rightarrow> failure + (hstate \<times> heap)" where
  "levels_body_h num fr rank syopt it hs h =
     (case cca_step_h num fr rank (S_y_ref hs) h of
        ((a_l, a_R, a_W, wCxxw, a_yy, a_yx), h1) \<Rightarrow>
          (case weight_update_h (pinv_of num) wCxxw a_yx a_yy (S_y_ref hs) syopt h1 of
             Inl e \<Rightarrow> Inl e
           | Inr ((J_wr, a_n, J_s), h2) \<Rightarrow>
               Inr (hs\<lparr> S_y_ref := a_n, J_val := J_s, iter_val := Some it,
                        l_k_ref := Some a_l, W_kd_ref := Some a_W, R_ket_ref := Some a_R \<rparr>,
                    h2[Js_ref hs :=
                         Trace ((get_trace h2 (Js_ref hs))[it := Some (J_wr, J_s)])])))"

text \<open>The convergence test reads the old and the new \<open>S_y\<close> from the store.\<close>

definition converged_h :: "real \<Rightarrow> heap \<Rightarrow> hstate \<Rightarrow> hstate \<Rightarrow> bool" where
  "converged_h tol h old new =
     (sum_list (map abs (map2 (-) (get_vec h (S_y_ref new)) (get_vec h (S_y_ref old)))) < tol
      \<or> \<bar>J_val new - J_val old\<bar> < tol)"

fun levels_loop_h ::
  "numerics \<Rightarrow> frame \<Rightarrow> nat \<Rightarrow> string option \<Rightarrow> real \<Rightarrow> nat \<Rightarrow> nat \<Rightarrow> hstate \<Rightarrow> heap
     \<Rightarrow> failure + (hstate \<times> heap)" where
  "levels_loop_h num fr rank syopt tol 0 it hs h = Inr (hs, h)"
| "levels_loop_h num fr rank syopt tol (Suc n) it hs h =
     (case levels_body_h num fr rank syopt it hs h of
        Inl e \<Rightarrow> Inl e
      | Inr (hs', h') \<Rightarrow>
          if converged_h tol h' hs hs' then Inr (hs', h')
          else levels_loop_h num fr rank syopt tol n (Suc it) hs' h')"

text \<open>\<open>Cyy_tyeye.shape[-2]\<close>\<close>

definition nY_of :: "ndarray \<Rightarrow> nat" where
  "nY_of c = (case c of Tens shape d \<Rightarrow> shape ! (length shape - 2) | _ \<Rightarrow> 0)"

text \<open>
  The statements of \<open>levelsCCA_cov\<close> before the loop, over the store: the arrays
  computed once, the trace buffer (\<open>np.zeros\<close>, then filled with \<open>nan\<close> in place),
  and the initial \<open>S_y\<close>, which is the caller's array when a seed is passed.
\<close>

definition setup_h ::
  "numerics \<Rightarrow> addr \<Rightarrow> addr \<Rightarrow> addr \<Rightarrow> addr option \<Rightarrow> nat \<Rightarrow> heap \<Rightarrow> (frame \<times> hstate) \<times> heap" where
  "setup_h num a_xx a_yx a_yy seed max_iter h =
     (case alloc (diag2full num (h ! a_yy)) h of
        (a_full, h1) \<Rightarrow>
     (case alloc (whiten_x num (h1 ! a_xx)) h1 of
        (a_wx, h2) \<Rightarrow>
     (case alloc (prewhiten num (h2 ! a_yx) (h2 ! a_wx)) h2 of
        (a_pre, h3) \<Rightarrow>
     (case alloc (whitened_cov num (h3 ! a_wx) (h3 ! a_xx)) h3 of
        (a_wcw, h4) \<Rightarrow>
     (case alloc (Trace (replicate max_iter None)) h4 of
        (a_Js, h5) \<Rightarrow>
     (case (case seed of
              None \<Rightarrow>
                alloc (Vec (replicate (nY_of (h5 ! a_yy)) (1 / real (nY_of (h5 ! a_yy))))) h5
            | Some a \<Rightarrow> (a, h5)) of
        (a_S, h6) \<Rightarrow>
          ((\<lparr> Cxx_dd = a_xx, Cyx_yetd = a_yx, Cyy_yetyet = a_full, isqrtCxx_dd = a_wx,
              CyxisqrtCxx_yetd = a_pre \<rparr>,
            \<lparr> S_y_ref = a_S, J_val = 10 ^ 9, Js_ref = a_Js, iter_val = None,
              l_k_ref = None, W_kd_ref = None, R_ket_ref = None \<rparr>), h6)))))))"

text \<open>
  \<open>levelsCCA_cov\<close> over the store. The arguments are the addresses of \<open>Cxx_dd\<close>,
  \<open>Cyx_yetd\<close>, \<open>Cyy_tyeye\<close> and, when the caller passes one, of the seed \<open>S_y\<close>.
  The result holds \<open>J\<close> and the addresses of \<open>W_kd\<close>, \<open>R_ket\<close> and \<open>S_y\<close>.
\<close>

definition levelsCCA_cov_h ::
  "numerics \<Rightarrow> addr \<Rightarrow> addr \<Rightarrow> addr \<Rightarrow> addr option \<Rightarrow> int \<Rightarrow> real \<Rightarrow> nat \<Rightarrow> string option \<Rightarrow> heap
     \<Rightarrow> failure + ((real \<times> addr \<times> addr \<times> addr) \<times> heap)" where
  "levelsCCA_cov_h num a_xx a_yx a_yy seed rank tol max_iter syopt h =
     (case setup_h num a_xx a_yx a_yy seed max_iter h of
        ((fr, hs0), h0) \<Rightarrow>
          (case levels_loop_h num fr (nat (max 1 rank)) syopt tol max_iter 0 hs0 h0 of
             Inl e \<Rightarrow> Inl e
           | Inr (hs, h1) \<Rightarrow>
               (case (l_k_ref hs, W_kd_ref hs, R_ket_ref hs) of
                  (Some a_l, Some a_W, Some a_R) \<Rightarrow>
                    (case rescale (get_vec h1 a_l) (get_mat h1 a_W) (get_ten3 h1 a_R) of
                       Inl e \<Rightarrow> Inl e
                     | Inr (W', R') \<Rightarrow>
                         (case alloc (Mat W') h1 of
                            (a_W', h2) \<Rightarrow>
                              (case alloc (Ten3 R') h2 of
                                 (a_R', h3) \<Rightarrow>
                                   Inr ((J_val hs, a_W', a_R', S_y_ref hs), h3))))
                | _ \<Rightarrow> Inl (UnboundLocalError ''l_k''))))"

text \<open>
  \<open>unchanged h h'\<close>: the store \<open>h'\<close> holds, at every address of \<open>h\<close>, the array that
  \<open>h\<close> holds there.
\<close>

definition unchanged :: "heap \<Rightarrow> heap \<Rightarrow> bool" where
  "unchanged h h' = (length h \<le> length h' \<and> take (length h) h' = h)"

text \<open>
  The link between the two models. \<open>collab_of\<close> gives the collaborators of the model
  over values for given contents of \<open>Cxx_dd\<close>, \<open>Cyx_yetd\<close> and \<open>Cyy_tyeye\<close>;
  \<open>ops_at\<close> gives them from the arrays a store holds at the addresses of a frame.
  \<open>abs_state\<close> reads the loop variables off a store; \<open>result_vec\<close> and
  \<open>result_levels\<close> read the results. \<open>wf_store\<close> says that every address in use
  lies in the store and that the trace buffer is an array of its own.
\<close>

definition collab_of :: "numerics \<Rightarrow> ndarray \<Rightarrow> ndarray \<Rightarrow> ndarray \<Rightarrow> collab" where
  "collab_of num cxx cyx cyy =
     (let full = diag2full num cyy;
          wx = whiten_x num cxx;
          pre = prewhiten num cyx wx
      in \<lparr> svd_step = (\<lambda>s. fst (svd_of num full pre s)),
           unwhiten = (\<lambda>s c. unwhiten_of num (snd (svd_of num full pre s)) wx c),
           reduced_stats = (\<lambda>c. stats_of num cxx cyx full c),
           argsort_op = argsort_of num,
           pinv_op = pinv_of num \<rparr>)"

definition ops_at :: "numerics \<Rightarrow> frame \<Rightarrow> heap \<Rightarrow> collab" where
  "ops_at num fr h =
     \<lparr> svd_step = (\<lambda>s. fst (svd_of num (h ! Cyy_yetyet fr) (h ! CyxisqrtCxx_yetd fr) s)),
       unwhiten = (\<lambda>s c. unwhiten_of num
                     (snd (svd_of num (h ! Cyy_yetyet fr) (h ! CyxisqrtCxx_yetd fr) s))
                     (h ! isqrtCxx_dd fr) c),
       reduced_stats = (\<lambda>c. stats_of num (h ! Cxx_dd fr) (h ! Cyx_yetd fr) (h ! Cyy_yetyet fr) c),
       argsort_op = argsort_of num,
       pinv_op = pinv_of num \<rparr>"

definition abs_state :: "heap \<Rightarrow> hstate \<Rightarrow> lstate" where
  "abs_state h hs =
     \<lparr> S_y = get_vec h (S_y_ref hs), J = J_val hs, Js = get_trace h (Js_ref hs),
       iter = iter_val hs,
       l_k = map_option (get_vec h) (l_k_ref hs),
       W_kd = map_option (get_mat h) (W_kd_ref hs),
       R_ket = map_option (get_ten3 h) (R_ket_ref hs) \<rparr>"

definition result_vec :: "failure + (addr \<times> heap) \<Rightarrow> failure + vec" where
  "result_vec r = map_sum id (\<lambda>(a, h). get_vec h a) r"

definition result_levels ::
  "failure + ((real \<times> addr \<times> addr \<times> addr) \<times> heap) \<Rightarrow> failure + (real \<times> mat \<times> ten3 \<times> vec)" where
  "result_levels r =
     map_sum id (\<lambda>((J_end, a_W, a_R, a_S), h).
                   (J_end, get_mat h a_W, get_ten3 h a_R, get_vec h a_S)) r"

definition wf_store :: "frame \<Rightarrow> hstate \<Rightarrow> heap \<Rightarrow> bool" where
  "wf_store fr hs h =
     (Cxx_dd fr < length h \<and> Cyx_yetd fr < length h \<and> Cyy_yetyet fr < length h
      \<and> isqrtCxx_dd fr < length h \<and> CyxisqrtCxx_yetd fr < length h
      \<and> Js_ref hs < length h \<and> S_y_ref hs < length h
      \<and> Cxx_dd fr \<noteq> Js_ref hs \<and> Cyx_yetd fr \<noteq> Js_ref hs \<and> Cyy_yetyet fr \<noteq> Js_ref hs
      \<and> isqrtCxx_dd fr \<noteq> Js_ref hs \<and> CyxisqrtCxx_yetd fr \<noteq> Js_ref hs
      \<and> S_y_ref hs \<noteq> Js_ref hs
      \<and> list_all (\<lambda>r. case r of None \<Rightarrow> True | Some a \<Rightarrow> a < length h \<and> a \<noteq> Js_ref hs)
           [l_k_ref hs, W_kd_ref hs, R_ket_ref hs])"

section \<open>Notions used to state the properties\<close>

text \<open>The mode strings for which the loop body of \<open>nonneglsopt\<close> has a branch.\<close>

definition supported :: "string list" where
  "supported = [''ls'', ''lspos'', ''expgrad'', ''gd'', ''mu'', ''irwls'', ''negridge'']"

text \<open>
  The state at an iteration boundary: \<open>levels_iterate ... k it st\<close> runs the loop body
  \<open>k\<close> times from \<open>st\<close>, the first time with index \<open>it\<close>, without looking at the
  convergence test. \<open>converged_at ... j\<close> says that the test holds at the end of the
  \<open>j\<close>-th pass (counted from 1), between the states before and after that pass.
\<close>

fun levels_iterate ::
  "collab \<Rightarrow> nat \<Rightarrow> string option \<Rightarrow> nat \<Rightarrow> nat \<Rightarrow> lstate \<Rightarrow> failure + lstate" where
  "levels_iterate ops rank syopt 0 it st = Inr st"
| "levels_iterate ops rank syopt (Suc k) it st =
     (case levels_body ops rank syopt it st of
        Inl e \<Rightarrow> Inl e
      | Inr st' \<Rightarrow> levels_iterate ops rank syopt k (Suc it) st')"

definition converged_at ::
  "collab \<Rightarrow> nat \<Rightarrow> string option \<Rightarrow> real \<Rightarrow> nat \<Rightarrow> lstate \<Rightarrow> nat \<Rightarrow> bool" where
  "converged_at ops rank syopt tol it st j =
     (case (levels_iterate ops rank syopt (j - 1) it st, levels_iterate ops rank syopt j it st) of
        (Inr p, Inr q) \<Rightarrow> 0 < j \<and> converged tol p q
      | _ \<Rightarrow> False)"

text \<open>
  The factor the specification gives for component \<open>k\<close>: the square root of its
  singular value relative to the largest one, and 1 when the largest one is not
  positive.
\<close>

definition component_scale :: "vec \<Rightarrow> nat \<Rightarrow> real" where
  "component_scale l k = (if 0 < Max (set l) then sqrt (l ! k / Max (set l)) else 1)"

text \<open>
  What one pass retains, between the state \<open>pre\<close> it starts from and the state
  \<open>post\<close> it produces, for \<open>(R, l, W)\<close> the responses, singular values and filters
  that the SVD gives at \<open>S_y pre\<close>: the singular values kept are the \<open>r\<close> largest
  of \<open>l\<close> in descending order; their number is \<open>min r (length l)\<close>; they stand in
  \<open>l\<close> at distinct positions \<open>idx\<close>; and the responses and filters kept are the
  un-whitened ones of \<open>R\<close> and \<open>W\<close> at the same positions.
\<close>

definition top_rank_retained :: "collab \<Rightarrow> nat \<Rightarrow> lstate \<Rightarrow> lstate \<Rightarrow> bool" where
  "top_rank_retained ops r pre post =
     (case svd_step ops (S_y pre) of
        (R, l, W) \<Rightarrow>
          (let idx = take r (rev (argsort_op ops l)) in
             l_k post = Some (take r (rev (sort l)))
           \<and> map_option length (l_k post) = Some (min r (length l))
           \<and> distinct idx \<and> set idx \<subseteq> {..<length l}
           \<and> map (\<lambda>i. l ! i) idx = take r (rev (sort l))
           \<and> (case unwhiten ops (S_y pre) (map (\<lambda>i. R ! i) idx, map (\<lambda>i. W ! i) idx) of
                (R', W') \<Rightarrow> R_ket post = Some R' \<and> W_kd post = Some W')))"

section \<open>Concrete collaborators\<close>

text \<open>
  A stable \<open>argsort\<close> (numpy leaves the order of equal keys to the sorting routine),
  and two records of collaborators on which concrete runs are evaluated.

  \<open>ops_zero\<close> stands for the inputs with one channel, one event type, one lag and
  one level whose three covariance arrays are zero: the doubly whitened cross matrix is
  the \<open>1 \<times> 1\<close> zero matrix, with singular value 0; applying the whitener of a zero
  matrix gives zero filters and responses; every reduced statistic is a contraction
  with a zero array.

  \<open>ops_demo\<close> returns the same two components and the same reduced statistics for
  every \<open>S_y\<close>; it serves to run the loop on a problem with two levels.
\<close>

definition argsort_stable :: "vec \<Rightarrow> nat list" where
  "argsort_stable l = sort_key (\<lambda>i. l ! i) [0..<length l]"

definition ops_zero :: collab where
  "ops_zero =
     \<lparr> svd_step = (\<lambda>s. ([[[1]]], [0], [[1]])),
       unwhiten = (\<lambda>s c. case c of (R, W) \<Rightarrow>
                     (map (map (map (\<lambda>x. x * 0))) R, map (map (\<lambda>x. x * 0)) W)),
       reduced_stats = (\<lambda>c. (0, [[0]], [0])),
       argsort_op = argsort_stable,
       pinv_op = pinv_diag \<rparr>"

definition ops_demo :: collab where
  "ops_demo =
     \<lparr> svd_step = (\<lambda>s. ([[[1]], [[1]]], [4, 1], [[1, 0], [0, 1]])),
       unwhiten = (\<lambda>s c. c),
       reduced_stats = (\<lambda>c. (1, [[1, 0], [0, 1]], [1, 0])),
       argsort_op = argsort_stable,
       pinv_op = pinv_diag \<rparr>"

text \<open>
  For runs over the store: the collaborators for the all-zero inputs of \<open>ops_zero\<close>,
  a store that holds these inputs (\<open>Cxx_dd\<close> at address 0, \<open>Cyx_yetd\<close> at 1,
  \<open>Cyy_tyeye\<close> at 2), the store a run leaves behind, and a store with the arguments
  \<open>C_yx\<close>, \<open>C_yy\<close>, \<open>s_y\<close> of a call of the solver.
\<close>

definition num_zero :: numerics where
  "num_zero =
     \<lparr> diag2full = (\<lambda>c. Tens [1, 1, 1, 1, 1, 1] [0]),
       whiten_x = (\<lambda>c. Mat [[0]]),
       prewhiten = (\<lambda>c w. Tens [1, 1, 1, 1] [0]),
       whitened_cov = (\<lambda>w c. Mat [[0]]),
       svd_of = (\<lambda>c p s. (([[[1]]], [0], [[1]]), Tens [1, 1, 1, 1] [0])),
       unwhiten_of = (\<lambda>wy wx c. case c of (R, W) \<Rightarrow>
                        (map (map (map (\<lambda>x. x * 0))) R, map (map (\<lambda>x. x * 0)) W)),
       stats_of = (\<lambda>cxx cyx cyy c. (0, [[0]], [0])),
       argsort_of = argsort_stable,
       pinv_of = pinv_diag \<rparr>"

definition heap_zero :: heap where
  "heap_zero = [Mat [[0]], Tens [1, 1, 1, 1] [0], Tens [1, 1, 1, 1, 1] [0]]"

definition heap_zero_run :: heap where
  "heap_zero_run =
     [Mat [[0]], Tens [1, 1, 1, 1] [0], Tens [1, 1, 1, 1, 1] [0],
      Tens [1, 1, 1, 1, 1, 1] [0], Mat [[0]], Tens [1, 1, 1, 1] [0], Mat [[0]],
      Trace [Some (0, 0), None], Vec [1],
      Vec [0], Ten3 [[[0]]], Mat [[0]], Mat [[0]], Vec [0], Vec [1],
      Mat [[0]], Ten3 [[[0]]]]"

definition heap_solver :: heap where
  "heap_solver = [Vec [1], Mat [[2]], Vec [1]]"

section \<open>Auxiliary facts\<close>

subsection \<open>Sums, division and the final clamp\<close>

lemma sum_list_map_divide: "sum_list (map (\<lambda>x. x / c) v) = sum_list v / (c::real)"
  by (induction v) (simp_all add: add_divide_distrib)

lemma vdiv_length: "vdiv v c = Inr s \<Longrightarrow> length s = length v"
  by (auto simp: vdiv_def split: if_splits)

lemma vdiv_normalised:
  assumes "vdiv v (sum_list v) = Inr s" and "v \<noteq> []"
  shows "sum_list s = 1"
proof -
  from assms have nz: "sum_list v \<noteq> 0" and s: "s = map (\<lambda>x. x / sum_list v) v"
    by (auto simp: vdiv_def split: if_splits)
  show ?thesis using nz by (simp add: s sum_list_map_divide)
qed

lemma sum_list_pos:
  assumes "\<forall>x\<in>set v. 0 < (x::real)" and "v \<noteq> []"
  shows "0 < sum_list v"
  using assms by (induction v) (auto intro: add_pos_nonneg sum_list_nonneg less_imp_le)

lemma clamp_normalise:
  assumes "vdiv (map (\<lambda>x. max (1 / 10 ^ 6) x) s)
             (sum_list (map (\<lambda>x. max (1 / 10 ^ 6) x) s)) = Inr r"
  shows "(\<forall>x\<in>set r. 0 < x) \<and> length r = length s \<and> (s \<noteq> [] \<longrightarrow> sum_list r = 1)"
proof -
  let ?c = "map (\<lambda>x. max (1 / 10 ^ 6) x) s"
  have pos: "\<forall>x\<in>set ?c. 0 < x" by (auto simp: max_def)
  have r: "r = map (\<lambda>x. x / sum_list ?c) ?c"
    using assms by (auto simp: vdiv_def split: if_splits)
  show ?thesis
  proof (cases "s = []")
    case True
    then show ?thesis using r by simp
  next
    case False
    then have ne: "?c \<noteq> []" by simp
    have sp: "0 < sum_list ?c" using sum_list_pos [OF pos ne] .
    have "\<forall>x\<in>set r. 0 < x"
    proof
      fix x assume "x \<in> set r"
      then obtain y where y: "y \<in> set ?c" "x = y / sum_list ?c" unfolding r by auto
      have "0 < y" using pos y(1) by blast
      then show "0 < x" using sp y(2) by (simp add: divide_pos_pos)
    qed
    moreover have "sum_list r = 1" using vdiv_normalised [OF assms ne] .
    moreover have "length r = length s" by (simp add: r)
    ultimately show ?thesis by simp
  qed
qed

lemma l1_distance_bound:
  assumes "\<forall>x\<in>set a. 0 \<le> (x::real)" and "\<forall>x\<in>set b. 0 \<le> x"
  shows "sum_list (map abs (map2 (-) a b)) \<le> sum_list a + sum_list b"
  using assms
proof (induction a arbitrary: b)
  case Nil
  then show ?case by (simp add: sum_list_nonneg)
next
  case (Cons x a)
  show ?case
  proof (cases b)
    case Nil
    then show ?thesis using Cons.prems by (simp add: sum_list_nonneg add_nonneg_nonneg)
  next
    case (Cons y b')
    have "sum_list (map abs (map2 (-) a b')) \<le> sum_list a + sum_list b'"
      using Cons.IH [of b'] Cons.prems Cons by simp
    moreover have "\<bar>x - y\<bar> \<le> x + y" using Cons.prems Cons by auto
    ultimately show ?thesis using Cons by simp
  qed
qed

subsection \<open>The solver loop\<close>

lemma nnls_iterate_eta:
  "syopt = ''expgrad'' \<or> syopt = ''gd'' \<Longrightarrow>
   nnls_iterate pinv C_xx C_yx C_yy syopt tol eps (Suc n) s_y J0 = Inl (NameError ''eta'')"
  by (auto simp add: update_rule_def)

lemma nnls_iterate_unknown:
  "syopt \<notin> set supported \<Longrightarrow>
   nnls_iterate pinv C_xx C_yx C_yy syopt tol eps (Suc n) s_y J0
     = Inl (ValueError (''unknown optimization type: '' @ syopt))"
  by (simp add: update_rule_def supported_def)

lemma nonneglsopt_result:
  assumes "nonneglsopt pinv C_xx C_yx C_yy s_y syopt max_iter tol ridge eps = Inr r"
      and "\<not> all_zero C_yy"
  shows "(\<forall>x\<in>set r. 0 < x) \<and> (r \<noteq> [] \<longrightarrow> sum_list r = 1)"
proof -
  from assms obtain s where
    "vdiv (map (\<lambda>x. max (1 / 10 ^ 6) x) s)
       (sum_list (map (\<lambda>x. max (1 / 10 ^ 6) x) s)) = Inr r"
    by (auto simp: nonneglsopt_def Let_def split: sum.splits)
  from clamp_normalise [OF this] show ?thesis by auto
qed

lemma length_negridge [simp]: "length (negridge C s) = length C"
  by (simp add: negridge_def)

lemma length_add_ridge [simp]: "length (add_ridge C r) = length C"
  by (simp add: add_ridge_def)

lemma update_rule_length:
  assumes "update_rule pinv C_yx C_yy syopt s = Inr s1"
      and "\<forall>M. length (pinv M) = length M"
      and "length C_yy = length s" and "length C_yx = length s"
  shows "length s1 = length s"
proof -
  have m: "\<And>M v. length (matvec (pinv M) v) = length M"
    using assms(2) by (simp add: matvec_def)
  have n: "\<And>v. length (matvec C_yy v) = length s"
    using assms(3) by (simp add: matvec_def)
  consider "syopt = ''ls''" | "syopt = ''lspos''" | "syopt = ''expgrad''" | "syopt = ''gd''"
    | "syopt = ''mu''" | "syopt = ''irwls'' \<or> syopt = ''negridge''"
    | "syopt \<notin> set supported" by (auto simp: supported_def)
  then show ?thesis
  proof cases
    case 1 then show ?thesis using assms(1,3) m by (auto simp: update_rule_def)
  next
    case 2 then show ?thesis using assms(1,3) m by (auto simp: update_rule_def)
  next
    case 3 then show ?thesis using assms(1) by (simp add: update_rule_def)
  next
    case 4 then show ?thesis using assms(1) by (simp add: update_rule_def)
  next
    case 5 then show ?thesis using assms(1,4) n
      by (auto simp: update_rule_def vdiv_elem_def split: if_splits)
  next
    case 6 then show ?thesis using assms(1,3) m by (auto simp: update_rule_def)
  next
    case 7 then show ?thesis using assms(1) by (simp add: update_rule_def supported_def)
  qed
qed

lemma nnls_iterate_length:
  assumes "nnls_iterate pinv C_xx C_yx C_yy syopt tol eps n s J0 = Inr r"
      and "\<forall>M. length (pinv M) = length M"
      and "length C_yy = length s" and "length C_yx = length s"
  shows "length r = length s"
  using assms
proof (induction n arbitrary: s J0)
  case 0
  then show ?case by simp
next
  case (Suc n)
  from Suc.prems(1) obtain s1 s2 where
    u: "update_rule pinv C_yx C_yy syopt s = Inr s1" and
    v: "vdiv (map (\<lambda>x. x + eps) s1) (sum_list (map (\<lambda>x. x + eps) s1)) = Inr s2"
    by (auto split: sum.splits)
  have l1: "length s1 = length s" using update_rule_length [OF u Suc.prems(2,3,4)] .
  have l2: "length s2 = length s" using vdiv_length [OF v] l1 by simp
  show ?case
  proof (cases "\<bar>J0 - objective C_xx C_yx C_yy s2\<bar> < tol")
    case True
    then have "r = s2" using Suc.prems(1) u v by (simp add: Let_def)
    then show ?thesis using l2 by simp
  next
    case False
    then have "nnls_iterate pinv C_xx C_yx C_yy syopt tol eps n s2
                 (objective C_xx C_yx C_yy s2) = Inr r"
      using Suc.prems(1) u v by (simp add: Let_def)
    from Suc.IH [OF this Suc.prems(2)] l2 Suc.prems(3,4) show ?thesis by simp
  qed
qed

lemma nonneglsopt_length:
  assumes "nonneglsopt pinv C_xx C_yx C_yy s syopt max_iter tol ridge eps = Inr r"
      and "\<forall>M. length (pinv M) = length M"
      and "length C_yy = length s" and "length C_yx = length s"
  shows "length r = length s"
proof (cases "all_zero C_yy")
  case True
  then show ?thesis using assms(1) by (simp add: nonneglsopt_def)
next
  case False
  with assms(1) obtain s0 where
    i: "nnls_iterate pinv C_xx C_yx (add_ridge C_yy ridge)
          (case syopt of None \<Rightarrow> ''negridge'' | Some m \<Rightarrow> m) tol eps max_iter s
          (objective C_xx C_yx (add_ridge C_yy ridge) s) = Inr s0" and
    v: "vdiv (map (\<lambda>x. max (1 / 10 ^ 6) x) s0)
          (sum_list (map (\<lambda>x. max (1 / 10 ^ 6) x) s0)) = Inr r"
    by (auto simp: nonneglsopt_def Let_def split: sum.splits)
  have "length s0 = length s"
    using nnls_iterate_length [OF i assms(2)] assms(3,4) by simp
  then show ?thesis using vdiv_length [OF v] by simp
qed

lemma pinv_diag_length: "\<forall>M. length (pinv_diag M) = length M"
  by (simp add: pinv_diag_def)

subsection \<open>The weight update of the optimiser\<close>

lemma weight_update_objectives:
  assumes "weight_update pinv a b C s_old syopt = Inr (J_pre, s_new, J_post)"
  shows "J_pre = objective a b C s_old \<and> J_post = objective a b C s_new"
  using assms by (auto simp: weight_update_def Let_def split: sum.splits)

lemma weight_update_simplex:
  assumes "weight_update pinv a b C s_old syopt = Inr (Jp, s_new, Jq)"
      and "\<forall>x\<in>set s_old. 0 \<le> x"
  shows "(\<forall>x\<in>set s_new. 0 \<le> x) \<and> (s_new = [] \<or> sum_list s_new = 1)"
proof -
  from assms(1) obtain s where
    s: "nonneglsopt_dflt pinv a b C s_old syopt = Inr s" and
    v: "vdiv s (sum_list s) = Inr s_new"
    by (auto simp: weight_update_def Let_def split: sum.splits)
  have new: "s_new = map (\<lambda>x. x / sum_list s) s"
    using v by (auto simp: vdiv_def split: if_splits)
  show ?thesis
  proof (cases "all_zero C")
    case True
    then have "s = s_old" using s by (simp add: nonneglsopt_dflt_def nonneglsopt_def)
    show ?thesis
    proof (cases "s = []")
      case True
      then show ?thesis using new by simp
    next
      case False
      have nn: "\<forall>x\<in>set s. 0 \<le> x" using assms(2) \<open>s = s_old\<close> by simp
      then have "0 \<le> sum_list s" by (simp add: sum_list_nonneg)
      then have "\<forall>x\<in>set s_new. 0 \<le> x" using nn unfolding new by auto
      moreover have "sum_list s_new = 1" using vdiv_normalised [OF v False] .
      ultimately show ?thesis by simp
    qed
  next
    case False
    from nonneglsopt_result [OF s [unfolded nonneglsopt_dflt_def] False]
    have pos: "\<forall>x\<in>set s. 0 < x" and one: "s \<noteq> [] \<longrightarrow> sum_list s = 1" by auto
    show ?thesis
    proof (cases "s = []")
      case True
      then show ?thesis using new by simp
    next
      case False
      then have "sum_list s = 1" using one by simp
      then have "s_new = s" using new by simp
      then show ?thesis using pos \<open>sum_list s = 1\<close> by (auto intro: less_imp_le)
    qed
  qed
qed

lemma weight_update_single_level:
  assumes w: "weight_update pinv a [b] [[c]] [1] syopt = Inr (J_pre, s_new, J_post)"
      and p: "\<forall>M. length (pinv M) = length M"
  shows "s_new = [1]"
proof -
  from w obtain s where
    s: "nonneglsopt_dflt pinv a [b] [[c]] [1] syopt = Inr s" and
    v: "vdiv s (sum_list s) = Inr s_new"
    by (auto simp: weight_update_def Let_def split: sum.splits)
  have "length s = 1"
    using nonneglsopt_length [OF s [unfolded nonneglsopt_dflt_def] p] by simp
  then have "length s_new = 1" using vdiv_length [OF v] by simp
  then obtain x where x: "s_new = [x]" by (cases s_new) auto
  have "\<forall>y\<in>set [1::real]. 0 \<le> y" by simp
  from weight_update_simplex [OF w this] x show ?thesis by simp
qed

subsection \<open>The optimiser loop\<close>

lemma levels_body_Inr:
  assumes "levels_body ops rank syopt it st = Inr st1"
  shows "\<exists>a C b Jp Jq. weight_update (pinv_op ops) a b C (S_y st) syopt = Inr (Jp, S_y st1, Jq)"
  using assms unfolding levels_body_def
  by (fastforce split: prod.splits sum.splits)

lemma levels_body_iter:
  "levels_body ops rank syopt it st = Inr st1 \<Longrightarrow> iter st1 = Some it"
  unfolding levels_body_def by (auto split: prod.splits sum.splits)

lemma converged_at_0: "\<not> converged_at ops rank syopt tol it st 0"
  by (simp add: converged_at_def split: sum.splits)

lemma converged_at_1:
  "levels_body ops rank syopt it st = Inr st1 \<Longrightarrow>
   converged_at ops rank syopt tol it st (Suc 0) = converged tol st st1"
  by (simp add: converged_at_def)

lemma converged_at_shift:
  "levels_body ops rank syopt it st = Inr st1 \<Longrightarrow> 0 < j \<Longrightarrow>
   converged_at ops rank syopt tol it st (Suc j)
     = converged_at ops rank syopt tol (Suc it) st1 j"
  by (cases j) (auto simp add: converged_at_def split: sum.splits)

lemma levels_loop_first_exit:
  "levels_loop ops rank syopt tol n it st = Inr st' \<Longrightarrow>
   \<exists>k\<le>n. levels_iterate ops rank syopt k it st = Inr st'
        \<and> (k = n \<or> converged_at ops rank syopt tol it st k)
        \<and> (\<forall>j<k. \<not> converged_at ops rank syopt tol it st j)"
proof (induction n arbitrary: it st)
  case 0
  then show ?case by (simp add: converged_at_0)
next
  case (Suc n)
  from Suc.prems obtain st1 where b: "levels_body ops rank syopt it st = Inr st1"
    by (auto split: sum.splits)
  show ?case
  proof (cases "converged tol st st1")
    case True
    with Suc.prems b have "st' = st1" by simp
    with b True have
      "levels_iterate ops rank syopt (Suc 0) it st = Inr st'"
      "converged_at ops rank syopt tol it st (Suc 0)"
      "\<forall>j<Suc 0. \<not> converged_at ops rank syopt tol it st j"
      by (simp_all add: converged_at_1 converged_at_0)
    then show ?thesis by (intro exI [of _ "Suc 0"]) simp
  next
    case False
    with Suc.prems b have "levels_loop ops rank syopt tol n (Suc it) st1 = Inr st'" by simp
    from Suc.IH [OF this] obtain k where k: "k \<le> n"
      "levels_iterate ops rank syopt k (Suc it) st1 = Inr st'"
      "k = n \<or> converged_at ops rank syopt tol (Suc it) st1 k"
      "\<forall>j<k. \<not> converged_at ops rank syopt tol (Suc it) st1 j"
      by blast
    have 1: "levels_iterate ops rank syopt (Suc k) it st = Inr st'" using b k(2) by simp
    have 2: "Suc k = Suc n \<or> converged_at ops rank syopt tol it st (Suc k)"
    proof (cases "k = n")
      case True
      then show ?thesis by simp
    next
      case False
      with k(3) have c: "converged_at ops rank syopt tol (Suc it) st1 k" by simp
      then have "0 < k" using converged_at_0 by (cases k) auto
      then show ?thesis using c converged_at_shift [OF b] by simp
    qed
    have 3: "\<forall>j<Suc k. \<not> converged_at ops rank syopt tol it st j"
    proof (intro allI impI)
      fix j assume j: "j < Suc k"
      show "\<not> converged_at ops rank syopt tol it st j"
      proof (cases j)
        case 0
        then show ?thesis by (simp add: converged_at_0)
      next
        case (Suc j')
        show ?thesis
        proof (cases j')
          case 0
          then show ?thesis using Suc False converged_at_1 [OF b] by simp
        next
          case (Suc j'')
          then have "0 < j'" by simp
          moreover have "j' < k" using j \<open>j = Suc j'\<close> by simp
          ultimately show ?thesis
            using k(4) converged_at_shift [OF b] \<open>j = Suc j'\<close> by simp
        qed
      qed
    qed
    from k(1) 1 2 3 show ?thesis by (intro exI [of _ "Suc k"]) simp
  qed
qed

lemma uniform_simplex:
  "(\<forall>x\<in>set (replicate nY (1 / real nY)). 0 \<le> x) \<and> sum_list (replicate nY (1 / real nY)) \<le> 1"
  by (cases "nY = 0") (simp_all add: sum_list_replicate)

lemma first_pass_converges:
  assumes b: "levels_body ops rank syopt it st = Inr st1"
      and nn: "\<forall>x\<in>set (S_y st). 0 \<le> x" and le: "sum_list (S_y st) < 10 ^ 9 - 1"
  shows "converged (10 ^ 9) st st1"
proof -
  from levels_body_Inr [OF b] obtain a C bb Jp Jq where
    w: "weight_update (pinv_op ops) a bb C (S_y st) syopt = Inr (Jp, S_y st1, Jq)" by blast
  from weight_update_simplex [OF w nn]
  have n1: "\<forall>x\<in>set (S_y st1). 0 \<le> x" and s1: "S_y st1 = [] \<or> sum_list (S_y st1) = 1"
    by auto
  have "sum_list (S_y st1) \<le> 1" using s1 by auto
  moreover have "deltaS_y st st1 \<le> sum_list (S_y st1) + sum_list (S_y st)"
    unfolding deltaS_y_def using l1_distance_bound [OF n1 nn] .
  ultimately have "deltaS_y st st1 < 10 ^ 9" using le by simp
  then show ?thesis by (simp add: converged_def)
qed

lemma tol_1e9_one_pass:
  assumes "levels_loop ops rank syopt (10 ^ 9) max_iter 0 st0 = Inr st"
      and "0 < max_iter"
      and "\<forall>x\<in>set (S_y st0). 0 \<le> x" and "sum_list (S_y st0) < 10 ^ 9 - 1"
  shows "iter st = Some 0"
proof -
  obtain n where n: "max_iter = Suc n" using assms(2) by (cases max_iter) auto
  from assms(1) obtain st1 where b: "levels_body ops rank syopt 0 st0 = Inr st1"
    unfolding n by (auto split: sum.splits)
  have "converged (10 ^ 9) st0 st1"
    using first_pass_converges [OF b assms(3,4)] .
  then have "st = st1" using assms(1) b unfolding n by simp
  then show ?thesis using levels_body_iter [OF b] by simp
qed

lemma init_state_seed_bound:
  assumes "case seed of None \<Rightarrow> True
           | Some s \<Rightarrow> (\<forall>x\<in>set s. 0 \<le> x) \<and> sum_list s < 10 ^ 9 - 1"
  shows "(\<forall>x\<in>set (S_y (init_state nY seed max_iter)). 0 \<le> x)
       \<and> sum_list (S_y (init_state nY seed max_iter)) < 10 ^ 9 - 1"
proof (cases seed)
  case None
  have "sum_list (replicate nY (1 / real nY)) \<le> 1" using uniform_simplex [of nY] by simp
  then have "sum_list (replicate nY (1 / real nY)) < 10 ^ 9 - 1" by simp
  then show ?thesis using None uniform_simplex [of nY] by (simp add: init_state_def)
next
  case (Some s)
  then show ?thesis using assms by (simp add: init_state_def)
qed

lemma levels_iterate_passes:
  "levels_iterate ops r syopt k it st0 = Inr st \<Longrightarrow>
   \<forall>j<k. \<exists>pre post. levels_iterate ops r syopt j it st0 = Inr pre
                   \<and> levels_body ops r syopt (it + j) pre = Inr post
                   \<and> levels_iterate ops r syopt (Suc j) it st0 = Inr post"
proof (induction k arbitrary: it st0)
  case 0
  then show ?case by simp
next
  case (Suc k)
  from Suc.prems obtain st1 where b: "levels_body ops r syopt it st0 = Inr st1"
    and r: "levels_iterate ops r syopt k (Suc it) st1 = Inr st"
    by (auto split: sum.splits)
  show ?case
  proof (intro allI impI)
    fix j assume j: "j < Suc k"
    show "\<exists>pre post. levels_iterate ops r syopt j it st0 = Inr pre
                   \<and> levels_body ops r syopt (it + j) pre = Inr post
                   \<and> levels_iterate ops r syopt (Suc j) it st0 = Inr post"
    proof (cases j)
      case 0
      then show ?thesis using b by simp
    next
      case (Suc j')
      then have "j' < k" using j by simp
      with Suc.IH [OF r] obtain pre post where
        "levels_iterate ops r syopt j' (Suc it) st1 = Inr pre"
        "levels_body ops r syopt (Suc it + j') pre = Inr post"
        "levels_iterate ops r syopt (Suc j') (Suc it) st1 = Inr post" by blast
      then show ?thesis using b Suc by (intro exI [of _ pre] exI [of _ post]) simp
    qed
  qed
qed

lemma levelsCCA_cov_Inr:
  assumes "levelsCCA_cov ops nY seed rank tol max_iter syopt = Inr (Jf, Wf, Rf, Sf)"
  shows "\<exists>st l W R. levels_loop ops (nat (max 1 rank)) syopt tol max_iter 0
                       (init_state nY seed max_iter) = Inr st
           \<and> l_k st = Some l \<and> W_kd st = Some W \<and> R_ket st = Some R
           \<and> rescale l W R = Inr (Wf, Rf) \<and> Jf = J st \<and> Sf = S_y st"
  using assms unfolding levelsCCA_cov_def
  by (auto split: sum.splits option.splits prod.splits)

subsection \<open>Selection and rescaling\<close>

lemma argsort_values:
  assumes p: "sort (p::nat list) = [0..<length (l::real list)]"
      and s: "sorted (map (\<lambda>i. l ! i) p)"
  shows "map (\<lambda>i. l ! i) p = sort l" and "distinct p" and "set p = {..<length l}"
proof -
  have m: "mset p = mset [0..<length l]" using p by (metis mset_sort)
  then show "distinct p" by (metis distinct_upt mset_eq_imp_distinct_iff)
  from m show "set p = {..<length l}" by (metis mset_eq_setD set_upt atLeast_upt)
  have "mset (map (\<lambda>i. l ! i) p) = mset (map (\<lambda>i. l ! i) [0..<length l])"
    using m by (metis mset_map)
  also have "map (\<lambda>i. l ! i) [0..<length l] = l" by (rule map_nth)
  finally have "mset (map (\<lambda>i. l ! i) p) = mset l" .
  then show "map (\<lambda>i. l ! i) p = sort l" using s by (metis properties_for_sort)
qed

lemma select_components_idx:
  "select_components argsort r (R, l, W)
     = (map (\<lambda>i. R ! i) (take r (rev (argsort l))),
        map (\<lambda>i. l ! i) (take r (rev (argsort l))),
        map (\<lambda>i. W ! i) (take r (rev (argsort l))))"
proof -
  have "take (min (length (argsort l)) r) (rev (argsort l)) = take r (rev (argsort l))"
    by (simp add: min_def)
  then show ?thesis by (simp add: select_components_def Let_def)
qed

lemma levels_body_retains:
  assumes perm: "\<forall>l. sort (argsort_op ops l) = [0..<length l]"
      and asc: "\<forall>l. sorted (map (\<lambda>i. l ! i) (argsort_op ops l))"
      and b: "levels_body ops r syopt it pre = Inr post"
  shows "top_rank_retained ops r pre post"
proof -
  obtain R l W where c: "svd_step ops (S_y pre) = (R, l, W)" by (cases "svd_step ops (S_y pre)")
  let ?p = "argsort_op ops l"
  let ?idx = "take r (rev ?p)"
  have p1: "sort ?p = [0..<length l]" using perm by simp
  have p2: "sorted (map (\<lambda>i. l ! i) ?p)" using asc by simp
  note a = argsort_values [OF p1 p2]
  have "map (\<lambda>i. l ! i) ?idx = take r (map (\<lambda>i. l ! i) (rev ?p))" by (simp add: take_map)
  also have "map (\<lambda>i. l ! i) (rev ?p) = rev (sort l)" by (metis a(1) rev_map)
  finally have v: "map (\<lambda>i. l ! i) ?idx = take r (rev (sort l))" .
  have d: "distinct ?idx" using a(2) by (simp add: distinct_take)
  have s: "set ?idx \<subseteq> {..<length l}" using a(3) by (metis set_rev set_take_subset)
  obtain R' W' where u: "unwhiten ops (S_y pre) (map (\<lambda>i. R ! i) ?idx, map (\<lambda>i. W ! i) ?idx)
      = (R', W')"
    by (cases "unwhiten ops (S_y pre) (map (\<lambda>i. R ! i) ?idx, map (\<lambda>i. W ! i) ?idx)")
  from b have st: "l_k post = Some (map (\<lambda>i. l ! i) ?idx)" "R_ket post = Some R'"
    "W_kd post = Some W'"
    unfolding levels_body_def c select_components_idx
    by (auto simp: u split: prod.splits sum.splits)
  have n: "map_option length (l_k post) = Some (min r (length l))"
    unfolding st(1) v by (simp add: min.commute)
  show ?thesis
    unfolding top_rank_retained_def c Let_def
    using st v d s n u by simp
qed

lemma argsort_stable_perm: "sort (argsort_stable l) = [0..<length l]"
proof -
  have "mset (argsort_stable l) = mset [0..<length l]" by (simp add: argsort_stable_def)
  moreover have "sorted [0..<length l]" by simp
  ultimately show ?thesis by (metis properties_for_sort)
qed

lemma argsort_stable_sorted: "sorted (map (\<lambda>i. l ! i) (argsort_stable l))"
  by (simp add: argsort_stable_def)

lemma np_max_Max: "l \<noteq> [] \<Longrightarrow> np_max l = Inr (Max (set l))"
  by (cases l) (simp_all add: Max.set_eq_fold [symmetric])

lemma relative_weights_nth:
  assumes "l \<noteq> []"
  shows "\<exists>nl. relative_weights l = Inr nl \<and> length nl = length l
            \<and> (\<forall>k<length l. nl ! k = (if 0 < Max (set l) then l ! k / Max (set l) else 1))"
  using assms by (simp add: relative_weights_def np_max_Max)

lemma rescale_nth:
  assumes ne: "l \<noteq> []" and nn: "\<forall>x\<in>set l. 0 \<le> x"
      and lw: "length W = length l" and lr: "length R = length l"
  shows "\<exists>W' R'. rescale l W R = Inr (W', R') \<and> length W' = length l \<and> length R' = length l
           \<and> (\<forall>k<length l. W' ! k = map (\<lambda>w. w * component_scale l k) (W ! k)
                          \<and> R' ! k = map (map (\<lambda>x. x * component_scale l k)) (R ! k))"
proof -
  from relative_weights_nth [OF ne] obtain nl where
    nl: "relative_weights l = Inr nl" "length nl = length l"
    "\<forall>k<length l. nl ! k = (if 0 < Max (set l) then l ! k / Max (set l) else 1)" by blast
  have pos: "\<forall>k<length l. 0 \<le> nl ! k"
  proof (intro allI impI)
    fix k assume k: "k < length l"
    then have "0 \<le> l ! k" using nn by simp
    then show "0 \<le> nl ! k" using nl(3) k by simp
  qed
  have "\<not> list_ex (\<lambda>x. x < 0) nl"
    using pos nl(2) by (auto simp: list_ex_iff in_set_conv_nth not_less)
  then have r: "rescale l W R =
      Inr (map2 (\<lambda>n row. map (\<lambda>w. w * sqrt n) row) nl W,
           map2 (\<lambda>n sl. map (map (\<lambda>x. x * sqrt n)) sl) nl R)"
    by (simp add: rescale_def nl(1))
  have sc: "\<forall>k<length l. sqrt (nl ! k) = component_scale l k"
    using nl(3) by (simp add: component_scale_def)
  let ?W = "map2 (\<lambda>n row. map (\<lambda>w. w * sqrt n) row) nl W"
  let ?R = "map2 (\<lambda>n sl. map (map (\<lambda>x. x * sqrt n)) sl) nl R"
  have "length ?W = length l" "length ?R = length l" using nl(2) lw lr by simp_all
  moreover have "\<forall>k<length l. ?W ! k = map (\<lambda>w. w * component_scale l k) (W ! k)
                          \<and> ?R ! k = map (map (\<lambda>x. x * component_scale l k)) (R ! k)"
    using nl(2) lw lr sc by simp
  ultimately show ?thesis using r by blast
qed

subsection \<open>Concrete runs\<close>


lemmas solver_eval = nonneglsopt_dflt_def nonneglsopt_def all_zero_def update_rule_def
  add_ridge_def objective_def dot_def vecmat_def matvec_def negridge_def pinv_diag_def vdiv_def
  mean_def diag_of_def

lemmas loop_eval = levels_body_def select_components_def argsort_stable_def weight_update_def
  converged_def deltaS_y_def deltaJ_def init_state_def

lemma solver_demo_onehot:
  "nonneglsopt_dflt pinv_diag 1 [1, 0] [[1, 0], [0, 1]] [1, 0] None
     = Inr [10010001 / 10020002, 10001 / 10020002]"
  by (simp add: solver_eval eval_nat_numeral)

lemma solver_demo_uniform:
  "nonneglsopt_dflt pinv_diag 1 [1, 0] [[1, 0], [0, 1]] [1 / 2, 1 / 2] None
     = Inr [10010001 / 10020002, 10001 / 10020002]"
  by (simp add: solver_eval eval_nat_numeral)

lemma solver_demo_fixed:
  "nonneglsopt_dflt pinv_diag 1 [1, 0] [[1, 0], [0, 1]]
       [10010001 / 10020002, 10001 / 10020002] None
     = Inr [10010001 / 10020002, 10001 / 10020002]"
  by (simp add: solver_eval eval_nat_numeral)

lemma solver_single:
  "nonneglsopt_dflt pinv_diag 1 [1] [[2]] [1] None = Inr [1]"
  by (simp add: solver_eval eval_nat_numeral)

lemma weight_update_demo_onehot:
  "(case weight_update pinv_diag 1 [1, 0] [[1, 0], [0, 1]] [1, 0] None of
      Inl e \<Rightarrow> False
    | Inr (J_pre, s_new, J_post) \<Rightarrow> J_pre = 0 \<and> J_pre < J_post)"
  by (simp add: weight_update_def solver_demo_onehot vdiv_def objective_def dot_def vecmat_def)

lemma weight_update_single: "weight_update pinv_diag 1 [1] [[2]] [1] None = Inr (1, [1], 1)"
  by (simp add: weight_update_def solver_single vdiv_def objective_def dot_def vecmat_def)

lemma body_demo_0:
  "levels_body ops_demo 2 None 0 (init_state 2 None 3)
     = Inr \<lparr> S_y = [10010001 / 10020002, 10001 / 10020002],
             J = 100020001 / 50200220040002,
             Js = [Some (1 / 2, 100020001 / 50200220040002), None, None],
             iter = Some 0, l_k = Some [4, 1], W_kd = Some [[1, 0], [0, 1]],
             R_ket = Some [[[1]], [[1]]] \<rparr>"
  by (simp add: loop_eval ops_demo_def solver_demo_uniform vdiv_def objective_def dot_def
      vecmat_def eval_nat_numeral)

lemma levels_loop_continue:
  assumes "0 < n" and "levels_body ops rank syopt it st = Inr st'"
      and "\<not> converged tol st st'"
  shows "levels_loop ops rank syopt tol n it st
           = levels_loop ops rank syopt tol (n - 1) (Suc it) st'"
  using assms by (cases n) simp_all

lemma levels_loop_stop:
  assumes "0 < n" and "levels_body ops rank syopt it st = Inr st'"
      and "converged tol st st'"
  shows "levels_loop ops rank syopt tol n it st = Inr st'"
  using assms by (cases n) simp_all

lemma demo_run_tol_1e9: "levels_loop ops_demo 2 None (10 ^ 9) 3 0 (init_state 2 None 3)
     = Inr \<lparr> S_y = [10010001 / 10020002, 10001 / 10020002],
             J = 100020001 / 50200220040002,
             Js = [Some (1 / 2, 100020001 / 50200220040002), None, None],
             iter = Some 0, l_k = Some [4, 1], W_kd = Some [[1, 0], [0, 1]],
             R_ket = Some [[[1]], [[1]]] \<rparr>"
proof (rule levels_loop_stop [OF _ body_demo_0])
  show "(0::nat) < 3" by simp
  show "converged (10 ^ 9) (init_state 2 None 3)
     \<lparr> S_y = [10010001 / 10020002, 10001 / 10020002],
             J = 100020001 / 50200220040002,
             Js = [Some (1 / 2, 100020001 / 50200220040002), None, None],
             iter = Some 0, l_k = Some [4, 1], W_kd = Some [[1, 0], [0, 1]],
             R_ket = Some [[[1]], [[1]]] \<rparr>"
    by (simp add: converged_def deltaS_y_def deltaJ_def init_state_def eval_nat_numeral)
qed

lemma body_demo_1:
  "levels_body ops_demo 2 None (Suc 0)
       \<lparr> S_y = [10010001 / 10020002, 10001 / 10020002],
         J = 100020001 / 50200220040002,
         Js = [Some (1 / 2, 100020001 / 50200220040002), None, None],
         iter = Some 0, l_k = Some [4, 1], W_kd = Some [[1, 0], [0, 1]],
         R_ket = Some [[[1]], [[1]]] \<rparr>
     = Inr \<lparr> S_y = [10010001 / 10020002, 10001 / 10020002],
             J = 100020001 / 50200220040002,
             Js = [Some (1 / 2, 100020001 / 50200220040002),
                   Some (100020001 / 50200220040002, 100020001 / 50200220040002), None],
             iter = Some 1, l_k = Some [4, 1], W_kd = Some [[1, 0], [0, 1]],
             R_ket = Some [[[1]], [[1]]] \<rparr>"
  by (simp add: loop_eval ops_demo_def solver_demo_fixed vdiv_def objective_def dot_def
      vecmat_def eval_nat_numeral)

lemma demo_run: "levels_loop ops_demo (nat (max 1 2)) None (1 / 10 ^ 3) 3 0 (init_state 2 None 3)
     = Inr \<lparr> S_y = [10010001 / 10020002, 10001 / 10020002],
             J = 100020001 / 50200220040002,
             Js = [Some (1 / 2, 100020001 / 50200220040002),
                   Some (100020001 / 50200220040002, 100020001 / 50200220040002), None],
             iter = Some 1, l_k = Some [4, 1], W_kd = Some [[1, 0], [0, 1]],
             R_ket = Some [[[1]], [[1]]] \<rparr>"
proof -
  define st1 where "st1 = \<lparr> S_y = [10010001 / 10020002, 10001 / 10020002 :: real],
         J = 100020001 / 50200220040002,
         Js = [Some (1 / 2, 100020001 / 50200220040002), None, None],
         iter = Some 0, l_k = Some [4, 1], W_kd = Some [[1, 0], [0, 1]],
         R_ket = Some [[[1]], [[1]]] \<rparr>"
  define st2 where "st2 = \<lparr> S_y = [10010001 / 10020002, 10001 / 10020002 :: real],
             J = 100020001 / 50200220040002,
             Js = [Some (1 / 2, 100020001 / 50200220040002),
                   Some (100020001 / 50200220040002, 100020001 / 50200220040002), None],
             iter = Some 1, l_k = Some [4, 1], W_kd = Some [[1, 0], [0, 1]],
             R_ket = Some [[[1]], [[1]]] \<rparr>"
  have r: "nat (max 1 2) = 2" by simp
  have b0: "levels_body ops_demo 2 None 0 (init_state 2 None 3) = Inr st1"
    unfolding st1_def by (rule body_demo_0)
  have c0: "\<not> converged (1 / 10 ^ 3) (init_state 2 None 3) st1"
    by (simp add: st1_def converged_def deltaS_y_def deltaJ_def init_state_def eval_nat_numeral)
  have b1: "levels_body ops_demo 2 None (Suc 0) st1 = Inr st2"
    unfolding st1_def st2_def by (rule body_demo_1)
  have c1: "converged (1 / 10 ^ 3) st1 st2"
    by (simp add: st1_def st2_def converged_def deltaS_y_def deltaJ_def)
  have "levels_loop ops_demo 2 None (1 / 10 ^ 3) 3 0 (init_state 2 None 3)
          = levels_loop ops_demo 2 None (1 / 10 ^ 3) (3 - 1) (Suc 0) st1"
    by (rule levels_loop_continue [OF _ b0 c0]) simp
  also have "\<dots> = Inr st2"
    by (rule levels_loop_stop [OF _ b1 c1]) simp
  finally show ?thesis unfolding r st2_def .
qed

lemma body_demo_seeded:
  "levels_body ops_demo 2 None 0 (init_state 2 (Some [1, 0]) 3)
     = Inr \<lparr> S_y = [10010001 / 10020002, 10001 / 10020002],
             J = 100020001 / 50200220040002,
             Js = [Some (0, 100020001 / 50200220040002), None, None],
             iter = Some 0, l_k = Some [4, 1], W_kd = Some [[1, 0], [0, 1]],
             R_ket = Some [[[1]], [[1]]] \<rparr>"
  by (simp add: loop_eval ops_demo_def solver_demo_onehot vdiv_def objective_def dot_def
      vecmat_def eval_nat_numeral)

lemma demo_run_seeded:
  "levels_loop ops_demo 2 None (10 ^ 9) 3 0 (init_state 2 (Some [1, 0]) 3)
     = Inr \<lparr> S_y = [10010001 / 10020002, 10001 / 10020002],
             J = 100020001 / 50200220040002,
             Js = [Some (0, 100020001 / 50200220040002), None, None],
             iter = Some 0, l_k = Some [4, 1], W_kd = Some [[1, 0], [0, 1]],
             R_ket = Some [[[1]], [[1]]] \<rparr>"
proof (rule levels_loop_stop [OF _ body_demo_seeded])
  show "(0::nat) < 3" by simp
  show "converged (10 ^ 9) (init_state 2 (Some [1, 0]) 3)
     \<lparr> S_y = [10010001 / 10020002, 10001 / 10020002],
             J = 100020001 / 50200220040002,
             Js = [Some (0, 100020001 / 50200220040002), None, None],
             iter = Some 0, l_k = Some [4, 1], W_kd = Some [[1, 0], [0, 1]],
             R_ket = Some [[[1]], [[1]]] \<rparr>"
    by (simp add: converged_def deltaS_y_def deltaJ_def init_state_def eval_nat_numeral)
qed

lemma body_demo_rank1_0:
  "levels_body ops_demo (nat (max 1 1)) None 0 (init_state 2 None 3)
     = Inr \<lparr> S_y = [10010001 / 10020002, 10001 / 10020002],
             J = 100020001 / 50200220040002,
             Js = [Some (1 / 2, 100020001 / 50200220040002), None, None],
             iter = Some 0, l_k = Some [4], W_kd = Some [[1, 0]],
             R_ket = Some [[[1]]] \<rparr>"
  by (simp add: loop_eval ops_demo_def solver_demo_uniform vdiv_def objective_def dot_def
      vecmat_def eval_nat_numeral)

lemma body_demo_rank1_1:
  "levels_body ops_demo (nat (max 1 1)) None (Suc 0)
       \<lparr> S_y = [10010001 / 10020002, 10001 / 10020002],
         J = 100020001 / 50200220040002,
         Js = [Some (1 / 2, 100020001 / 50200220040002), None, None],
         iter = Some 0, l_k = Some [4], W_kd = Some [[1, 0]],
         R_ket = Some [[[1]]] \<rparr>
     = Inr \<lparr> S_y = [10010001 / 10020002, 10001 / 10020002],
             J = 100020001 / 50200220040002,
             Js = [Some (1 / 2, 100020001 / 50200220040002),
                   Some (100020001 / 50200220040002, 100020001 / 50200220040002), None],
             iter = Some 1, l_k = Some [4], W_kd = Some [[1, 0]],
             R_ket = Some [[[1]]] \<rparr>"
  by (simp add: loop_eval ops_demo_def solver_demo_fixed vdiv_def objective_def dot_def
      vecmat_def eval_nat_numeral)

lemma body_demo_rank3_0:
  "levels_body ops_demo (nat (max 1 3)) None 0 (init_state 2 None 3)
     = Inr \<lparr> S_y = [10010001 / 10020002, 10001 / 10020002],
             J = 100020001 / 50200220040002,
             Js = [Some (1 / 2, 100020001 / 50200220040002), None, None],
             iter = Some 0, l_k = Some [4, 1], W_kd = Some [[1, 0], [0, 1]],
             R_ket = Some [[[1]], [[1]]] \<rparr>"
  by (simp add: loop_eval ops_demo_def solver_demo_uniform vdiv_def objective_def dot_def
      vecmat_def eval_nat_numeral)

lemma demo_run_rank1:
  "levels_loop ops_demo (nat (max 1 1)) None (1 / 10 ^ 3) 3 0 (init_state 2 None 3)
     = Inr \<lparr> S_y = [10010001 / 10020002, 10001 / 10020002],
             J = 100020001 / 50200220040002,
             Js = [Some (1 / 2, 100020001 / 50200220040002),
                   Some (100020001 / 50200220040002, 100020001 / 50200220040002), None],
             iter = Some 1, l_k = Some [4], W_kd = Some [[1, 0]],
             R_ket = Some [[[1]]] \<rparr>"
proof -
  define st1 where "st1 = \<lparr> S_y = [10010001 / 10020002, 10001 / 10020002 :: real],
         J = 100020001 / 50200220040002,
         Js = [Some (1 / 2, 100020001 / 50200220040002), None, None],
         iter = Some 0, l_k = Some [4], W_kd = Some [[1, 0]],
         R_ket = Some [[[1]]] \<rparr>"
  define st2 where "st2 = \<lparr> S_y = [10010001 / 10020002, 10001 / 10020002 :: real],
             J = 100020001 / 50200220040002,
             Js = [Some (1 / 2, 100020001 / 50200220040002),
                   Some (100020001 / 50200220040002, 100020001 / 50200220040002), None],
             iter = Some 1, l_k = Some [4], W_kd = Some [[1, 0]],
             R_ket = Some [[[1]]] \<rparr>"
  have b0: "levels_body ops_demo (nat (max 1 1)) None 0 (init_state 2 None 3) = Inr st1"
    unfolding st1_def by (rule body_demo_rank1_0)
  have c0: "\<not> converged (1 / 10 ^ 3) (init_state 2 None 3) st1"
    by (simp add: st1_def converged_def deltaS_y_def deltaJ_def init_state_def eval_nat_numeral)
  have b1: "levels_body ops_demo (nat (max 1 1)) None (Suc 0) st1 = Inr st2"
    unfolding st1_def st2_def by (rule body_demo_rank1_1)
  have c1: "converged (1 / 10 ^ 3) st1 st2"
    by (simp add: st1_def st2_def converged_def deltaS_y_def deltaJ_def)
  have "levels_loop ops_demo (nat (max 1 1)) None (1 / 10 ^ 3) 3 0 (init_state 2 None 3)
          = levels_loop ops_demo (nat (max 1 1)) None (1 / 10 ^ 3) (3 - 1) (Suc 0) st1"
    by (rule levels_loop_continue [OF _ b0 c0]) simp
  also have "\<dots> = Inr st2"
    by (rule levels_loop_stop [OF _ b1 c1]) simp
  finally show ?thesis unfolding st2_def .
qed

lemma demo_levelsCCA_cov_rank1:
  "levelsCCA_cov ops_demo 2 None 1 (1 / 10 ^ 3) 3 None
     = Inr (100020001 / 50200220040002, [[1, 0]], [[[1]]],
            [10010001 / 10020002, 10001 / 10020002])"
  unfolding levelsCCA_cov_def demo_run_rank1
  by (simp add: rescale_def relative_weights_def)

lemma ops_demo_argsort:
  "(\<forall>l. sort (argsort_op ops_demo l) = [0..<length l])
   \<and> (\<forall>l. sorted (map (\<lambda>i. l ! i) (argsort_op ops_demo l)))"
  by (simp add: ops_demo_def argsort_stable_perm argsort_stable_sorted)

lemma body_zero:
  assumes "S_y st = [c]" and "c \<noteq> 0" and "0 < r"
  shows "levels_body ops_zero r syopt it st
     = Inr (st\<lparr> S_y := [1], J := 0, Js := (Js st)[it := Some (0, 0)], iter := Some it,
                l_k := Some [0], W_kd := Some [[0]], R_ket := Some [[[0]]] \<rparr>)"
proof -
  have "take (min (Suc 0) r) [0::nat] = [0]" using assms(3) by (cases r) simp_all
  then show ?thesis
    using assms(1,2)
    by (simp add: loop_eval ops_zero_def nonneglsopt_dflt_def nonneglsopt_def all_zero_def
        vdiv_def objective_def dot_def vecmat_def)
qed

subsection \<open>The store\<close>

lemma unchanged_refl: "unchanged h h"
  by (simp add: unchanged_def)

lemma unchanged_trans: "unchanged h1 h2 \<Longrightarrow> unchanged h2 h3 \<Longrightarrow> unchanged h1 h3"
proof -
  assume a: "unchanged h1 h2" and b: "unchanged h2 h3"
  have l: "length h1 \<le> length h2" "length h2 \<le> length h3"
    using a b by (simp_all add: unchanged_def)
  have "take (length h1) h3 = take (length h1) (take (length h2) h3)"
    using l(1) by (simp add: min_def)
  also have "\<dots> = take (length h1) h2" using b by (simp add: unchanged_def)
  also have "\<dots> = h1" using a by (simp add: unchanged_def)
  finally show ?thesis using l by (simp add: unchanged_def)
qed

lemma unchanged_alloc: "alloc v h = (a, h') \<Longrightarrow> unchanged h h' \<and> a = length h"
  by (auto simp: alloc_def unchanged_def)

lemma unchanged_update:
  "unchanged h0 h \<Longrightarrow> length h0 \<le> a \<Longrightarrow> unchanged h0 (h[a := v])"
  by (simp add: unchanged_def)

lemma unchanged_nth: "unchanged h h' \<Longrightarrow> a < length h \<Longrightarrow> h' ! a = h ! a"
proof -
  assume a: "unchanged h h'" and b: "a < length h"
  have "h ! a = take (length h) h' ! a" using a by (simp add: unchanged_def)
  then show ?thesis using b by simp
qed

lemma nnls_iterate_h_unchanged:
  "nnls_iterate_h pinv C_xx a_yx a_yy syopt tol eps n a_s J0 h = Inr (a, h') \<Longrightarrow> unchanged h h'"
proof (induction n arbitrary: a_s J0 h)
  case 0
  then show ?case by (simp add: unchanged_refl)
next
  case (Suc n)
  from Suc.prems obtain s1 s2 where
    u: "update_rule pinv (get_vec h a_yx) (get_mat h a_yy) syopt (get_vec h a_s) = Inr s1"
    and v: "vdiv (map (\<lambda>x. x + eps) (get_vec (h @ [Vec s1]) (length h)))
              (sum_list (map (\<lambda>x. x + eps) (get_vec (h @ [Vec s1]) (length h)))) = Inr s2"
    by (auto simp: alloc_def split: sum.splits)
  let ?h2 = "h @ [Vec s1] @ [Vec s2]"
  have h2: "unchanged h ?h2" by (simp add: unchanged_def)
  let ?J = "objective C_xx (get_vec ?h2 a_yx) (get_mat ?h2 a_yy) (get_vec ?h2 (Suc (length h)))"
  show ?case
  proof (cases "\<bar>J0 - ?J\<bar> < tol")
    case True
    then have "h' = ?h2" using Suc.prems u v by (simp add: alloc_def Let_def)
    then show ?thesis using h2 by simp
  next
    case False
    then have "nnls_iterate_h pinv C_xx a_yx a_yy syopt tol eps n (Suc (length h)) ?J ?h2
                 = Inr (a, h')"
      using Suc.prems u v by (simp add: alloc_def Let_def)
    from Suc.IH [OF this] h2 show ?thesis by (rule unchanged_trans [rotated])
  qed
qed

lemma nonneglsopt_h_unchanged:
  assumes "nonneglsopt_h pinv C_xx a_yx a_yy a_s syopt max_iter tol ridge eps h = Inr (a, h')"
  shows "unchanged h h'"
proof (cases "all_zero (get_mat h a_yy)")
  case True
  then show ?thesis using assms by (simp add: nonneglsopt_h_def unchanged_refl)
next
  case False
  let ?h1 = "h @ [Mat (add_ridge (get_mat h a_yy) ridge)]"
  from assms False obtain b h2 mode J0 where
    i: "nnls_iterate_h pinv C_xx a_yx (length h) mode tol eps max_iter a_s J0 ?h1 = Inr (b, h2)"
    and r: "\<exists>v w. h' = h2 @ [Vec v] @ [Vec w]"
    by (auto simp: nonneglsopt_h_def alloc_def Let_def split: sum.splits)
  have "unchanged h ?h1" by (simp add: unchanged_def)
  moreover have "unchanged ?h1 h2" using nnls_iterate_h_unchanged [OF i] .
  moreover have "unchanged h2 h'" using r by (auto simp: unchanged_def)
  ultimately show ?thesis by (blast intro: unchanged_trans)
qed

lemma unchanged_append: "unchanged h0 h \<Longrightarrow> unchanged h0 (h @ xs)"
  by (auto simp: unchanged_def)

lemma cca_step_h_unchanged:
  "cca_step_h num fr rank a_S h = (r, h') \<Longrightarrow> unchanged h h'"
proof -
  assume "cca_step_h num fr rank a_S h = (r, h')"
  then have "\<exists>v1 v2 v3 v4 v5. h' = h @ [v1, v2, v3, v4, v5]"
    unfolding cca_step_h_def alloc_def by (simp add: case_prod_beta) blast
  then show ?thesis by (auto simp: unchanged_def)
qed

lemma weight_update_h_unchanged:
  assumes "weight_update_h pinv wCxxw a_yx a_yy a_S syopt h = Inr (r, h')"
  shows "unchanged h h'"
proof -
  from assms obtain a_s h1 v where
    n: "nonneglsopt_h pinv wCxxw a_yx a_yy a_S syopt 30 (1 / 10 ^ 4) (1 / 10 ^ 4) (1 / 10 ^ 3) h
          = Inr (a_s, h1)" and h': "h' = h1 @ [v]"
    unfolding weight_update_h_def alloc_def Let_def
    by (auto split: sum.splits prod.splits)
  from nonneglsopt_h_unchanged [OF n] show ?thesis
    unfolding h' by (rule unchanged_append)
qed

lemma levels_body_h_unchanged:
  assumes b: "levels_body_h num fr rank syopt it hs h = Inr (hs', h')"
      and u: "unchanged h0 h" and j: "length h0 \<le> Js_ref hs"
  shows "unchanged h0 h' \<and> Js_ref hs' = Js_ref hs"
proof -
  obtain r h1 where c: "cca_step_h num fr rank (S_y_ref hs) h = (r, h1)"
    by (cases "cca_step_h num fr rank (S_y_ref hs) h") auto
  obtain a_l a_R a_W wCxxw a_yy a_yx where r: "r = (a_l, a_R, a_W, wCxxw, a_yy, a_yx)"
    by (cases r) auto
  from b c r obtain q h2 where
    w: "weight_update_h (pinv_of num) wCxxw a_yx a_yy (S_y_ref hs) syopt h1 = Inr (q, h2)"
    and h': "\<exists>t. h' = h2[Js_ref hs := t]" and k: "Js_ref hs' = Js_ref hs"
    unfolding levels_body_h_def by (fastforce split: sum.splits prod.splits)
  have "unchanged h0 h2"
    using u cca_step_h_unchanged [OF c] weight_update_h_unchanged [OF w]
    by (blast intro: unchanged_trans)
  then show ?thesis using h' j k by (auto intro: unchanged_update)
qed

lemma levels_loop_h_unchanged:
  "levels_loop_h num fr rank syopt tol n it hs h = Inr (hs', h') \<Longrightarrow>
   unchanged h0 h \<Longrightarrow> length h0 \<le> Js_ref hs \<Longrightarrow> unchanged h0 h'"
proof (induction n arbitrary: it hs h)
  case 0
  then show ?case by simp
next
  case (Suc n)
  from Suc.prems(1) obtain hs1 h1 where
    b: "levels_body_h num fr rank syopt it hs h = Inr (hs1, h1)"
    by (auto split: sum.splits)
  note f = levels_body_h_unchanged [OF b Suc.prems(2,3)]
  show ?case
  proof (cases "converged_h tol h1 hs hs1")
    case True
    then have "h' = h1" using Suc.prems(1) b by simp
    then show ?thesis using f by simp
  next
    case False
    then have "levels_loop_h num fr rank syopt tol n (Suc it) hs1 h1 = Inr (hs', h')"
      using Suc.prems(1) b by simp
    from Suc.IH [OF this] f Suc.prems(3) show ?thesis by simp
  qed
qed

lemma setup_h_unchanged:
  "setup_h num a_xx a_yx a_yy seed max_iter h = ((fr, hs0), h0) \<Longrightarrow>
   unchanged h h0 \<and> length h \<le> Js_ref hs0"
proof -
  assume a: "setup_h num a_xx a_yx a_yy seed max_iter h = ((fr, hs0), h0)"
  then have "Js_ref hs0 = length h + 4"
    unfolding setup_h_def alloc_def by (auto simp add: case_prod_beta)
  moreover from a have "\<exists>xs. h0 = h @ xs"
    unfolding setup_h_def alloc_def by (cases seed) (auto simp add: case_prod_beta)
  ultimately show ?thesis by (auto simp: unchanged_def)
qed

lemma levelsCCA_cov_h_unchanged:
  assumes "levelsCCA_cov_h num a_xx a_yx a_yy seed rank tol max_iter syopt h = Inr (res, h')"
  shows "unchanged h h'"
proof -
  obtain fr hs0 h0 where s: "setup_h num a_xx a_yx a_yy seed max_iter h = ((fr, hs0), h0)"
    by (cases "setup_h num a_xx a_yx a_yy seed max_iter h") auto
  from assms s obtain hs h1 where
    l: "levels_loop_h num fr (nat (max 1 rank)) syopt tol max_iter 0 hs0 h0 = Inr (hs, h1)"
    and r: "\<exists>w1 w2. h' = h1 @ [w1] @ [w2]"
    unfolding levelsCCA_cov_h_def alloc_def
    by (auto split: prod.splits sum.splits option.splits)
  note u = setup_h_unchanged [OF s]
  have "unchanged h h1" using levels_loop_h_unchanged [OF l] u by blast
  then show ?thesis using r by (auto intro: unchanged_append)
qed

lemmas store_eval = alloc_def get_vec_def get_mat_def get_ten3_def get_trace_def

lemmas store_run = levelsCCA_cov_h_def setup_h_def levels_body_h_def cca_step_h_def
  weight_update_h_def nonneglsopt_h_def converged_h_def rescale_def relative_weights_def
  select_components_def argsort_stable_def nY_of_def all_zero_def vdiv_def objective_def
  dot_def vecmat_def matvec_def add_ridge_def negridge_def update_rule_def pinv_diag_def
  mean_def diag_of_def

lemma run_zero:
  "levelsCCA_cov_h num_zero 0 1 2 None 1 (1 / 10 ^ 3) 2 None heap_zero
     = Inr ((0, 15, 16, 14), heap_zero_run)"
  by (simp add: store_run store_eval num_zero_def heap_zero_def heap_zero_run_def
      eval_nat_numeral)

lemma run_solver:
  "nonneglsopt_h pinv_diag 1 0 1 2 None 30 (1 / 10 ^ 4) (1 / 10 ^ 4) (1 / 10 ^ 3) heap_solver
     = Inr (7, heap_solver @ [Mat [[20001 / 10000]], Vec [10000 / 20001], Vec [1],
                              Vec [1], Vec [1]])"
  by (simp add: store_run store_eval heap_solver_def eval_nat_numeral)

subsection \<open>The store model computes what the value model computes\<close>

lemma get_append:
  "a < length h \<Longrightarrow> get_vec (h @ xs) a = get_vec h a"
  "a < length h \<Longrightarrow> get_mat (h @ xs) a = get_mat h a"
  "a < length h \<Longrightarrow> get_ten3 (h @ xs) a = get_ten3 h a"
  "a < length h \<Longrightarrow> get_trace (h @ xs) a = get_trace h a"
  by (simp_all add: get_vec_def get_mat_def get_ten3_def get_trace_def nth_append)

lemma get_new:
  "get_vec (h @ [Vec v]) (length h) = v"
  "get_mat (h @ [Mat m]) (length h) = m"
  "get_ten3 (h @ [Ten3 t]) (length h) = t"
  by (simp_all add: get_vec_def get_mat_def get_ten3_def)

lemma get_unchanged:
  assumes "unchanged h h'" and "a < length h"
  shows "get_vec h' a = get_vec h a" "get_mat h' a = get_mat h a"
    "get_ten3 h' a = get_ten3 h a"
  using unchanged_nth [OF assms] by (simp_all add: get_vec_def get_mat_def get_ten3_def)

lemma nnls_iterate_h_refines:
  "a_yx < length h \<Longrightarrow> a_yy < length h \<Longrightarrow> a_s < length h \<Longrightarrow>
   result_vec (nnls_iterate_h pinv C_xx a_yx a_yy syopt tol eps n a_s J0 h)
     = nnls_iterate pinv C_xx (get_vec h a_yx) (get_mat h a_yy) syopt tol eps n (get_vec h a_s) J0"
proof (induction n arbitrary: a_s J0 h)
  case 0
  then show ?case by (simp add: result_vec_def)
next
  case (Suc n)
  show ?case
  proof (cases "update_rule pinv (get_vec h a_yx) (get_mat h a_yy) syopt (get_vec h a_s)")
    case (Inl e)
    then show ?thesis by (simp add: result_vec_def)
  next
    case (Inr s1)
    show ?thesis
    proof (cases "vdiv (map (\<lambda>x. x + eps) s1) (sum_list (map (\<lambda>x. x + eps) s1))")
      case (Inl e)
      then show ?thesis using Inr by (simp add: result_vec_def alloc_def get_new)
    next
      case s2: (Inr s2)
      let ?h2 = "(h @ [Vec s1]) @ [Vec s2]"
      have l: "a_yx < length ?h2" "a_yy < length ?h2" "Suc (length h) < length ?h2"
        using Suc.prems by simp_all
      have g: "get_vec ?h2 a_yx = get_vec h a_yx" "get_mat ?h2 a_yy = get_mat h a_yy"
        "get_vec ?h2 (Suc (length h)) = s2"
        using Suc.prems get_new(1) [of "h @ [Vec s1]" s2] by (simp_all add: get_append)
      show ?thesis
        using Inr s2 Suc.IH [OF l] g
        by (simp add: alloc_def get_new Let_def result_vec_def)
    qed
  qed
qed

lemma nnls_iterate_h_addr:
  "nnls_iterate_h pinv C_xx a_yx a_yy syopt tol eps n a_s J0 h = Inr (a, h') \<Longrightarrow>
   a_s < length h \<Longrightarrow> a < length h'"
proof (induction n arbitrary: a_s J0 h)
  case 0
  then show ?case by simp
next
  case (Suc n)
  from Suc.prems(1) obtain s1 s2 where
    u: "update_rule pinv (get_vec h a_yx) (get_mat h a_yy) syopt (get_vec h a_s) = Inr s1"
    and v: "vdiv (map (\<lambda>x. x + eps) (get_vec (h @ [Vec s1]) (length h)))
              (sum_list (map (\<lambda>x. x + eps) (get_vec (h @ [Vec s1]) (length h)))) = Inr s2"
    by (auto simp: alloc_def split: sum.splits)
  let ?h2 = "h @ [Vec s1] @ [Vec s2]"
  let ?J = "objective C_xx (get_vec ?h2 a_yx) (get_mat ?h2 a_yy) (get_vec ?h2 (Suc (length h)))"
  show ?case
  proof (cases "\<bar>J0 - ?J\<bar> < tol")
    case True
    then have "h' = ?h2" "a = Suc (length h)"
      using Suc.prems u v by (simp_all add: alloc_def Let_def)
    then show ?thesis by simp
  next
    case False
    then have "nnls_iterate_h pinv C_xx a_yx a_yy syopt tol eps n (Suc (length h)) ?J ?h2
                 = Inr (a, h')"
      using Suc.prems u v by (simp add: alloc_def Let_def)
    from Suc.IH [OF this] show ?thesis by simp
  qed
qed

lemma nonneglsopt_h_refines:
  assumes "a_yx < length h" "a_yy < length h" "a_s < length h"
  shows "result_vec (nonneglsopt_h pinv C_xx a_yx a_yy a_s syopt max_iter tol ridge eps h)
     = nonneglsopt pinv C_xx (get_vec h a_yx) (get_mat h a_yy) (get_vec h a_s) syopt
         max_iter tol ridge eps"
proof (cases "all_zero (get_mat h a_yy)")
  case True
  then show ?thesis by (simp add: nonneglsopt_h_def nonneglsopt_def result_vec_def)
next
  case False
  let ?C = "add_ridge (get_mat h a_yy) ridge"
  let ?h1 = "h @ [Mat ?C]"
  let ?mode = "case syopt of None \<Rightarrow> ''negridge'' | Some m \<Rightarrow> m"
  let ?J0 = "objective C_xx (get_vec h a_yx) ?C (get_vec h a_s)"
  have l: "a_yx < length ?h1" "length h < length ?h1" "a_s < length ?h1"
    using assms by simp_all
  have g: "get_vec ?h1 a_yx = get_vec h a_yx" "get_mat ?h1 (length h) = ?C"
    "get_vec ?h1 a_s = get_vec h a_s"
    using assms by (simp_all add: get_append get_new)
  note r = nnls_iterate_h_refines [OF l, of pinv C_xx ?mode tol eps max_iter ?J0, unfolded g]
  show ?thesis
  proof (cases "nnls_iterate_h pinv C_xx a_yx (length h) ?mode tol eps max_iter a_s ?J0 ?h1")
    case (Inl e)
    have i: "nnls_iterate pinv C_xx (get_vec h a_yx) ?C ?mode tol eps max_iter (get_vec h a_s) ?J0
               = Inl e"
      using r Inl by (simp add: result_vec_def)
    show ?thesis using False Inl i g
      by (simp add: nonneglsopt_h_def nonneglsopt_def alloc_def Let_def result_vec_def)
  next
    case (Inr p)
    obtain a h2 where p: "p = (a, h2)" by (cases p) auto
    have i: "nnls_iterate pinv C_xx (get_vec h a_yx) ?C ?mode tol eps max_iter (get_vec h a_s) ?J0
               = Inr (get_vec h2 a)"
      using r Inr p by (simp add: result_vec_def)
    let ?c = "map (\<lambda>x. max (1 / 10 ^ 6) x) (get_vec h2 a)"
    have gc: "get_vec (h2 @ [Vec ?c]) (length h2) = ?c" by (rule get_new)
    show ?thesis
    proof (cases "vdiv ?c (sum_list ?c)")
      case (Inl e)
      then show ?thesis using False Inr p i g gc
        by (simp add: nonneglsopt_h_def nonneglsopt_def alloc_def Let_def result_vec_def)
    next
      case v: (Inr v)
      have "get_vec ((h2 @ [Vec ?c]) @ [Vec v]) (Suc (length h2)) = v"
        using get_new(1) [of "h2 @ [Vec ?c]" v] by simp
      then show ?thesis using False Inr p i g gc v
        by (simp add: nonneglsopt_h_def nonneglsopt_def alloc_def Let_def result_vec_def)
    qed
  qed
qed

lemma weight_update_h_refines:
  assumes "a_yx < length h" "a_yy < length h" "a_S < length h"
  shows "case weight_update_h pinv w a_yx a_yy a_S syopt h of
           Inl e \<Rightarrow> weight_update pinv w (get_vec h a_yx) (get_mat h a_yy) (get_vec h a_S) syopt
                     = Inl e
         | Inr ((J_wr, a_n, J_s), h') \<Rightarrow>
             weight_update pinv w (get_vec h a_yx) (get_mat h a_yy) (get_vec h a_S) syopt
               = Inr (J_wr, get_vec h' a_n, J_s)
             \<and> unchanged h h' \<and> length h \<le> a_n \<and> a_n < length h'"
proof -
  let ?n = "nonneglsopt_h pinv w a_yx a_yy a_S syopt 30 (1 / 10 ^ 4) (1 / 10 ^ 4) (1 / 10 ^ 3) h"
  note r = nonneglsopt_h_refines [OF assms, of pinv w syopt 30 "1 / 10 ^ 4" "1 / 10 ^ 4" "1 / 10 ^ 3"]
  show ?thesis
  proof (cases ?n)
    case (Inl e)
    then have "nonneglsopt_dflt pinv w (get_vec h a_yx) (get_mat h a_yy) (get_vec h a_S) syopt = Inl e"
      using r by (simp add: result_vec_def nonneglsopt_dflt_def)
    then show ?thesis using Inl by (simp add: weight_update_h_def weight_update_def)
  next
    case (Inr p)
    obtain a h1 where p: "p = (a, h1)" by (cases p) auto
    have s: "nonneglsopt_dflt pinv w (get_vec h a_yx) (get_mat h a_yy) (get_vec h a_S) syopt
               = Inr (get_vec h1 a)"
      using r Inr p by (simp add: result_vec_def nonneglsopt_dflt_def)
    have u: "unchanged h h1" using nonneglsopt_h_unchanged Inr p by blast
    show ?thesis
    proof (cases "vdiv (get_vec h1 a) (sum_list (get_vec h1 a))")
      case (Inl e)
      then show ?thesis using Inr p s by (simp add: weight_update_h_def weight_update_def)
    next
      case v: (Inr v)
      have l: "length h \<le> length h1" using u by (simp add: unchanged_def)
      have g: "get_vec (h1 @ [Vec v]) a_yx = get_vec h a_yx"
        "get_mat (h1 @ [Vec v]) a_yy = get_mat h a_yy"
        using assms l get_unchanged [OF u] by (simp_all add: get_append)
      have "unchanged h (h1 @ [Vec v])" using u by (rule unchanged_append)
      then show ?thesis using Inr p s v g l
        by (simp add: weight_update_h_def weight_update_def alloc_def get_new)
    qed
  qed
qed

lemma get_update_other:
  "a \<noteq> j \<Longrightarrow> get_vec (h[j := v]) a = get_vec h a"
  "a \<noteq> j \<Longrightarrow> get_mat (h[j := v]) a = get_mat h a"
  "a \<noteq> j \<Longrightarrow> get_ten3 (h[j := v]) a = get_ten3 h a"
  by (simp_all add: get_vec_def get_mat_def get_ten3_def)

lemma get_trace_update: "j < length h \<Longrightarrow> get_trace (h[j := Trace t]) j = t"
  by (simp add: get_trace_def)

lemma get_trace_unchanged:
  "unchanged h h' \<Longrightarrow> a < length h \<Longrightarrow> get_trace h' a = get_trace h a"
  using unchanged_nth [of h h' a] by (simp add: get_trace_def)

lemma cca_step_h_value:
  assumes "wf_store fr hs h"
  shows "cca_step_h num fr rank (S_y_ref hs) h =
     (case select_components (argsort_op (ops_at num fr h)) rank
             (svd_step (ops_at num fr h) (get_vec h (S_y_ref hs))) of
        (R_sel, l_sel, W_sel) \<Rightarrow>
          (case unwhiten (ops_at num fr h) (get_vec h (S_y_ref hs)) (R_sel, W_sel) of
             (R, W) \<Rightarrow>
               (case reduced_stats (ops_at num fr h) (R, W) of
                  (w, C, b) \<Rightarrow>
                    ((length h, Suc (length h), Suc (Suc (length h)), w,
                      Suc (Suc (Suc (length h))), Suc (Suc (Suc (Suc (length h))))),
                     h @ [Vec l_sel, Ten3 R, Mat W, Mat C, Vec b]))))"
  using assms
  by (simp add: cca_step_h_def ops_at_def wf_store_def alloc_def nth_append case_prod_beta
      get_ten3_def get_mat_def)

lemma ops_at_unchanged:
  assumes "unchanged h h'" and "wf_store fr hs h"
  shows "ops_at num fr h' = ops_at num fr h"
  using assms unchanged_nth [OF assms(1)]
  by (simp add: ops_at_def wf_store_def)

lemma ops_at_update:
  assumes "wf_store fr hs h"
  shows "ops_at num fr (h[Js_ref hs := v]) = ops_at num fr h"
  using assms by (simp add: ops_at_def wf_store_def)

lemma levels_body_h_refines:
  assumes wf: "wf_store fr hs h"
  shows "case levels_body_h num fr rank syopt it hs h of
           Inl e \<Rightarrow> levels_body (ops_at num fr h) rank syopt it (abs_state h hs) = Inl e
         | Inr (hs', h') \<Rightarrow>
             levels_body (ops_at num fr h) rank syopt it (abs_state h hs)
               = Inr (abs_state h' hs')
             \<and> wf_store fr hs' h' \<and> ops_at num fr h' = ops_at num fr h
             \<and> get_vec h' (S_y_ref hs) = get_vec h (S_y_ref hs)"
proof -
  let ?ops = "ops_at num fr h"
  let ?S = "get_vec h (S_y_ref hs)"
  obtain R_sel l_sel W_sel where
    sel: "select_components (argsort_op ?ops) rank (svd_step ?ops ?S) = (R_sel, l_sel, W_sel)"
    by (cases "select_components (argsort_op ?ops) rank (svd_step ?ops ?S)") auto
  obtain R W where uw: "unwhiten ?ops ?S (R_sel, W_sel) = (R, W)"
    by (cases "unwhiten ?ops ?S (R_sel, W_sel)") auto
  obtain w C b where rs: "reduced_stats ?ops (R, W) = (w, C, b)"
    by (cases "reduced_stats ?ops (R, W)") auto
  let ?n = "length h"
  let ?h1 = "h @ [Vec l_sel, Ten3 R, Mat W, Mat C, Vec b]"
  have c: "cca_step_h num fr rank (S_y_ref hs) h =
      ((?n, Suc ?n, Suc (Suc ?n), w, Suc (Suc (Suc ?n)), Suc (Suc (Suc (Suc ?n)))), ?h1)"
    using cca_step_h_value [OF wf, of num rank] sel uw rs by simp
  have lt: "S_y_ref hs < ?n" "Js_ref hs < ?n" using wf by (simp_all add: wf_store_def)
  have g1: "get_vec ?h1 (Suc (Suc (Suc (Suc ?n)))) = b" "get_mat ?h1 (Suc (Suc (Suc ?n))) = C"
    "get_vec ?h1 (S_y_ref hs) = ?S" "get_vec ?h1 ?n = l_sel" "get_ten3 ?h1 (Suc ?n) = R"
    "get_mat ?h1 (Suc (Suc ?n)) = W" "get_trace ?h1 (Js_ref hs) = get_trace h (Js_ref hs)"
    using lt by (simp_all add: get_vec_def get_mat_def get_ten3_def get_trace_def nth_append)
  have pv: "pinv_op ?ops = pinv_of num" by (simp add: ops_at_def)
  have u1: "unchanged h ?h1" by (simp add: unchanged_def)
  note wr = weight_update_h_refines [of "Suc (Suc (Suc (Suc ?n)))" ?h1 "Suc (Suc (Suc ?n))"
      "S_y_ref hs" "pinv_of num" w syopt, unfolded g1]
  show ?thesis
  proof (cases "weight_update_h (pinv_of num) w (Suc (Suc (Suc (Suc ?n)))) (Suc (Suc (Suc ?n)))
                  (S_y_ref hs) syopt ?h1")
    case (Inl e)
    then have "weight_update (pinv_of num) w b C ?S syopt = Inl e" using wr lt by simp
    then show ?thesis
      using Inl c sel uw rs pv
      by (simp add: levels_body_h_def levels_body_def abs_state_def)
  next
    case (Inr p)
    obtain J_wr a_n J_s h2 where p: "p = ((J_wr, a_n, J_s), h2)" by (cases p) auto
    from wr Inr p lt have
      wu: "weight_update (pinv_of num) w b C ?S syopt = Inr (J_wr, get_vec h2 a_n, J_s)"
      and u2: "unchanged ?h1 h2" and an: "length ?h1 \<le> a_n" "a_n < length h2"
      by simp_all
    let ?t = "Trace ((get_trace h2 (Js_ref hs))[it := Some (J_wr, J_s)])"
    let ?h' = "h2[Js_ref hs := ?t]"
    let ?hs' = "hs\<lparr> S_y_ref := a_n, J_val := J_s, iter_val := Some it,
                    l_k_ref := Some ?n, W_kd_ref := Some (Suc (Suc ?n)),
                    R_ket_ref := Some (Suc ?n) \<rparr>"
    have b: "levels_body_h num fr rank syopt it hs h = Inr (?hs', ?h')"
      using c Inr p by (simp add: levels_body_h_def)
    have u: "unchanged h h2" using u1 u2 by (rule unchanged_trans)
    have l2: "length ?h1 \<le> length h2" using u2 by (simp add: unchanged_def)
    have ne: "a_n \<noteq> Js_ref hs" "?n \<noteq> Js_ref hs" "Suc ?n \<noteq> Js_ref hs"
      "Suc (Suc ?n) \<noteq> Js_ref hs" "S_y_ref hs \<noteq> Js_ref hs"
      using an lt wf by (simp_all add: wf_store_def)
    have g2: "get_vec h2 ?n = l_sel" "get_ten3 h2 (Suc ?n) = R" "get_mat h2 (Suc (Suc ?n)) = W"
      "get_trace h2 (Js_ref hs) = get_trace h (Js_ref hs)"
      "get_vec h2 (S_y_ref hs) = ?S"
      using get_unchanged [OF u2] get_trace_unchanged [OF u2] g1 lt by simp_all
    have a: "abs_state ?h' ?hs' =
        (abs_state h hs)\<lparr> S_y := get_vec h2 a_n, J := J_s,
            Js := (Js (abs_state h hs))[it := Some (J_wr, J_s)], iter := Some it,
            l_k := Some l_sel, W_kd := Some W, R_ket := Some R \<rparr>"
      using ne g2 lt l2
      by (simp add: abs_state_def get_update_other get_trace_update)
    have 1: "levels_body ?ops rank syopt it (abs_state h hs) = Inr (abs_state ?h' ?hs')"
      unfolding a using sel uw rs pv wu by (simp add: levels_body_def abs_state_def)
    have 2: "wf_store fr ?hs' ?h'"
      using wf l2 an by (simp add: wf_store_def)
    have 3: "ops_at num fr ?h' = ?ops"
      using wf by (simp add: ops_at_def wf_store_def unchanged_nth [OF u])
    have 4: "get_vec ?h' (S_y_ref hs) = ?S" using ne g2 by (simp add: get_update_other)
    show ?thesis using b 1 2 3 4 by simp
  qed
qed

lemma levels_loop_h_refines:
  "wf_store fr hs h \<Longrightarrow>
   (case levels_loop_h num fr rank syopt tol n it hs h of
      Inl e \<Rightarrow> levels_loop (ops_at num fr h) rank syopt tol n it (abs_state h hs) = Inl e
    | Inr (hs', h') \<Rightarrow>
        levels_loop (ops_at num fr h) rank syopt tol n it (abs_state h hs)
          = Inr (abs_state h' hs')
        \<and> wf_store fr hs' h')"
proof (induction n arbitrary: it hs h)
  case 0
  then show ?case by simp
next
  case (Suc n)
  note b = levels_body_h_refines [OF Suc.prems, of num rank syopt it]
  show ?case
  proof (cases "levels_body_h num fr rank syopt it hs h")
    case (Inl e)
    then show ?thesis using b by simp
  next
    case (Inr p)
    obtain hs1 h1 where p: "p = (hs1, h1)" by (cases p) auto
    from b Inr p have
      pb: "levels_body (ops_at num fr h) rank syopt it (abs_state h hs) = Inr (abs_state h1 hs1)"
      and wf1: "wf_store fr hs1 h1" and o: "ops_at num fr h1 = ops_at num fr h"
      and g: "get_vec h1 (S_y_ref hs) = get_vec h (S_y_ref hs)"
      by simp_all
    have c: "converged_h tol h1 hs hs1 = converged tol (abs_state h hs) (abs_state h1 hs1)"
      using g by (simp add: converged_h_def converged_def deltaS_y_def deltaJ_def abs_state_def)
    show ?thesis
    proof (cases "converged_h tol h1 hs hs1")
      case True
      then show ?thesis using Inr p pb wf1 c by simp
    next
      case False
      note ih = Suc.IH [OF wf1, of "Suc it", unfolded o]
      show ?thesis using False Inr p pb c ih by (auto split: sum.splits prod.splits)
    qed
  qed
qed

lemma setup_h_value:
  assumes "a_xx < length h" "a_yx < length h" "a_yy < length h"
      and "case seed of None \<Rightarrow> True | Some a \<Rightarrow> a < length h"
  shows "case setup_h num a_xx a_yx a_yy seed max_iter h of
           ((fr, hs0), h0) \<Rightarrow>
             wf_store fr hs0 h0
             \<and> ops_at num fr h0 = collab_of num (h ! a_xx) (h ! a_yx) (h ! a_yy)
             \<and> abs_state h0 hs0
                 = init_state (nY_of (h ! a_yy)) (map_option (get_vec h) seed) max_iter"
proof (cases seed)
  case None
  then show ?thesis
    using assms
    by (simp add: setup_h_def alloc_def wf_store_def ops_at_def collab_of_def abs_state_def
        init_state_def nth_append get_vec_def get_trace_def Let_def)
next
  case (Some a)
  then show ?thesis
    using assms
    by (simp add: setup_h_def alloc_def wf_store_def ops_at_def collab_of_def abs_state_def
        init_state_def nth_append get_vec_def get_trace_def Let_def)
qed

lemma levelsCCA_cov_h_refines:
  assumes "a_xx < length h" "a_yx < length h" "a_yy < length h"
      and "case seed of None \<Rightarrow> True | Some a \<Rightarrow> a < length h"
  shows "result_levels (levelsCCA_cov_h num a_xx a_yx a_yy seed rank tol max_iter syopt h)
           = levelsCCA_cov (collab_of num (h ! a_xx) (h ! a_yx) (h ! a_yy)) (nY_of (h ! a_yy))
               (map_option (get_vec h) seed) rank tol max_iter syopt"
proof -
  obtain fr hs0 h0 where s: "setup_h num a_xx a_yx a_yy seed max_iter h = ((fr, hs0), h0)"
    by (cases "setup_h num a_xx a_yx a_yy seed max_iter h") auto
  let ?ops = "collab_of num (h ! a_xx) (h ! a_yx) (h ! a_yy)"
  let ?st0 = "init_state (nY_of (h ! a_yy)) (map_option (get_vec h) seed) max_iter"
  from setup_h_value [OF assms, of num max_iter] s have
    wf0: "wf_store fr hs0 h0" and o: "ops_at num fr h0 = ?ops" and a0: "abs_state h0 hs0 = ?st0"
    by simp_all
  note l = levels_loop_h_refines [OF wf0, of num "nat (max 1 rank)" syopt tol max_iter 0,
      unfolded o a0]
  show ?thesis
  proof (cases "levels_loop_h num fr (nat (max 1 rank)) syopt tol max_iter 0 hs0 h0")
    case (Inl e)
    then show ?thesis using l s
      by (simp add: levelsCCA_cov_h_def levelsCCA_cov_def result_levels_def)
  next
    case (Inr p)
    obtain hs h1 where p: "p = (hs, h1)" by (cases p) auto
    from l Inr p have
      pl: "levels_loop ?ops (nat (max 1 rank)) syopt tol max_iter 0 ?st0 = Inr (abs_state h1 hs)"
      and wf1: "wf_store fr hs h1" by simp_all
    have sy: "S_y_ref hs < length h1" using wf1 by (simp add: wf_store_def)
    show ?thesis
    proof (cases "\<exists>a_l a_W a_R. l_k_ref hs = Some a_l \<and> W_kd_ref hs = Some a_W
                    \<and> R_ket_ref hs = Some a_R")
      case False
      then show ?thesis using s Inr p pl
        by (auto simp: levelsCCA_cov_h_def levelsCCA_cov_def result_levels_def abs_state_def
            split: option.splits)
    next
      case True
      then obtain a_l a_W a_R where r: "l_k_ref hs = Some a_l" "W_kd_ref hs = Some a_W"
        "R_ket_ref hs = Some a_R" by blast
      show ?thesis
      proof (cases "rescale (get_vec h1 a_l) (get_mat h1 a_W) (get_ten3 h1 a_R)")
        case (Inl e)
        then show ?thesis using s Inr p pl r
          by (simp add: levelsCCA_cov_h_def levelsCCA_cov_def result_levels_def abs_state_def)
      next
        case q: (Inr q)
        obtain W' R' where q': "q = (W', R')" by (cases q) auto
        have g: "get_mat ((h1 @ [Mat W']) @ [Ten3 R']) (length h1) = W'"
          "get_ten3 ((h1 @ [Mat W']) @ [Ten3 R']) (Suc (length h1)) = R'"
          "get_vec ((h1 @ [Mat W']) @ [Ten3 R']) (S_y_ref hs) = get_vec h1 (S_y_ref hs)"
          using sy by (simp_all add: get_mat_def get_ten3_def get_vec_def nth_append)
        show ?thesis using s Inr p pl r q q' g
          by (simp add: levelsCCA_cov_h_def levelsCCA_cov_def result_levels_def abs_state_def
              alloc_def)
      qed
    qed
  qed
qed

lemma collab_of_num_zero: "collab_of num_zero cxx cyx cyy = ops_zero"
  by (simp add: collab_of_def num_zero_def ops_zero_def)

section \<open>Properties of the weight solver\<close>

text \<open>
  C1. The claim: for every supported solver mode and every \<open>C_yy\<close> that is not
  identically zero, \<open>nonneglsopt\<close> returns a vector with non-negative entries that
  sum to 1. The code does not do so for the modes \<open>'expgrad'\<close> and \<open>'gd'\<close>: their
  update rules read the name \<open>eta\<close>, which \<open>nonneglsopt\<close> does not bind, so the
  first pass through the loop raises \<open>NameError\<close> and nothing is returned. This
  holds for every \<open>C_yy\<close> that is not identically zero, every \<open>s_y\<close> and every
  \<open>max_iter\<close> of at least 1.
\<close>

theorem nonneglsopt_expgrad_gd_raise:
  assumes "\<not> all_zero C_yy" and "0 < max_iter" and "mode = ''expgrad'' \<or> mode = ''gd''"
  shows "nonneglsopt pinv C_xx C_yx C_yy s_y (Some mode) max_iter tol ridge eps
           = Inl (NameError ''eta'')"
proof -
  obtain n where n: "max_iter = Suc n" using assms(2) by (cases max_iter) auto
  show ?thesis
    unfolding nonneglsopt_def n Let_def
    using assms(1) nnls_iterate_eta [OF assms(3)] by (simp del: nnls_iterate.simps)
qed

theorem nonneglsopt_expgrad_gd_raise_witness:
  "\<not> all_zero [[1]] \<and> (0::nat) < 30 \<and>
   nonneglsopt pinv_diag 0 [1] [[1]] [1] (Some ''expgrad'')
       30 (1 / 10 ^ 4) (1 / 10 ^ 4) (1 / 10 ^ 3) = Inl (NameError ''eta'')"
proof -
  have a: "\<not> all_zero [[1]]" by (simp add: all_zero_def)
  have b: "(0::nat) < 30" by simp
  have c: "''expgrad'' = ''expgrad'' \<or> ''expgrad'' = ''gd''" by simp
  show ?thesis
    using a b nonneglsopt_expgrad_gd_raise [OF a b c, of pinv_diag 0 "[1]" "[1]"
        "1 / 10 ^ 4" "1 / 10 ^ 4" "1 / 10 ^ 3"]
    by simp
qed

text \<open>
  C4. If the reduced Gram matrix \<open>C_yy\<close> is identically zero, the solver returns the
  input \<open>s_y\<close> unchanged, whatever the initial vector and the solver mode: nothing is
  clamped, normalised or iterated.
\<close>

theorem nonneglsopt_zero_gram_returns_input:
  assumes "all_zero C_yy"
  shows "nonneglsopt pinv C_xx C_yx C_yy s_y syopt max_iter tol ridge eps = Inr s_y"
  using assms by (simp add: nonneglsopt_def)

theorem nonneglsopt_zero_gram_returns_input_witness:
  "all_zero [[0, 0], [0, 0]] \<and>
   nonneglsopt pinv_diag 1 [1, 0] [[0, 0], [0, 0]] [1 / 4, 3 / 4] (Some ''ls'')
       30 (1 / 10 ^ 4) (1 / 10 ^ 4) (1 / 10 ^ 3) = Inr [1 / 4, 3 / 4]"
proof -
  have z: "all_zero [[0, 0], [0, 0]]" by (simp add: all_zero_def)
  show ?thesis
    using z nonneglsopt_zero_gram_returns_input [OF z, of pinv_diag 1 "[1, 0]"
        "[1 / 4, 3 / 4]" "Some ''ls''" 30 "1 / 10 ^ 4" "1 / 10 ^ 4" "1 / 10 ^ 3"]
    by simp
qed

text \<open>
  C5. The claim: for every input, a mode string outside the supported ones makes
  \<open>nonneglsopt\<close> fail at once. The mode is only looked at inside the loop body, after
  the guard for an all-zero \<open>C_yy\<close>: with such a \<open>C_yy\<close> the string \<open>'bogus'\<close> is
  accepted silently and \<open>s_y\<close> is returned.
\<close>

theorem unknown_mode_silent_counterexample:
  "nonneglsopt pinv_diag 0 [1] [[0]] [1] (Some ''bogus'')
       30 (1 / 10 ^ 4) (1 / 10 ^ 4) (1 / 10 ^ 3) = Inr [1]"
  by (simp add: nonneglsopt_def all_zero_def)

text \<open>
  C5, as amended. If \<open>C_yy\<close> is not identically zero and \<open>max_iter\<close> is at least 1,
  a mode string outside the supported ones makes \<open>nonneglsopt\<close> raise \<open>ValueError\<close>
  with the message \<open>unknown optimization type: <mode>\<close> in the first pass through the
  loop, before any update of \<open>s_y\<close>; no default update rule is used.
\<close>

theorem nonneglsopt_unknown_mode_raises:
  assumes "\<not> all_zero C_yy" and "0 < max_iter" and "mode \<notin> set supported"
  shows "nonneglsopt pinv C_xx C_yx C_yy s_y (Some mode) max_iter tol ridge eps
           = Inl (ValueError (''unknown optimization type: '' @ mode))"
proof -
  obtain n where n: "max_iter = Suc n" using assms(2) by (cases max_iter) auto
  show ?thesis
    unfolding nonneglsopt_def n Let_def
    using assms(1) nnls_iterate_unknown [OF assms(3)] by (simp del: nnls_iterate.simps)
qed

theorem nonneglsopt_unknown_mode_raises_witness:
  "\<not> all_zero [[1, 0], [0, 1]] \<and> (0::nat) < 30 \<and> ''bogus'' \<notin> set supported \<and>
   nonneglsopt pinv_diag 1 [1, 0] [[1, 0], [0, 1]] [1, 0] (Some ''bogus'')
       30 (1 / 10 ^ 4) (1 / 10 ^ 4) (1 / 10 ^ 3)
     = Inl (ValueError ''unknown optimization type: bogus'')"
proof -
  have a: "\<not> all_zero [[1, 0], [0, 1]]" by (simp add: all_zero_def)
  have b: "(0::nat) < 30" by simp
  have c: "''bogus'' \<notin> set supported" by (simp add: supported_def)
  show ?thesis
    using a b c nonneglsopt_unknown_mode_raises [OF a b c, of pinv_diag 1 "[1, 0]" "[1, 0]"
        "1 / 10 ^ 4" "1 / 10 ^ 4" "1 / 10 ^ 3"]
    by simp
qed

text \<open>
  C10. When \<open>C_yy\<close> is identically zero the early return comes before the test of the
  mode string and before the final clamp and renormalisation: for any \<open>syopt\<close> string,
  a supported one or not, no error is raised and the result is the input \<open>s_y\<close>
  itself, whatever its entries (negative ones, or a sum other than 1, included).
\<close>

theorem nonneglsopt_zero_gram_bypasses_checks:
  assumes "all_zero C_yy"
  shows "nonneglsopt pinv C_xx C_yx C_yy s_y (Some mode) max_iter tol ridge eps = Inr s_y
       \<and> \<not> isl (nonneglsopt pinv C_xx C_yx C_yy s_y (Some mode) max_iter tol ridge eps)"
  using assms by (simp add: nonneglsopt_def)

theorem nonneglsopt_zero_gram_bypasses_checks_witness:
  "all_zero [[0, 0], [0, 0]] \<and> ''bogus'' \<notin> set supported \<and>
   nonneglsopt pinv_diag 1 [1, 0] [[0, 0], [0, 0]] [- 1, 3] (Some ''bogus'')
       30 (1 / 10 ^ 4) (1 / 10 ^ 4) (1 / 10 ^ 3) = Inr [- 1, 3]"
proof -
  have z: "all_zero [[0, 0], [0, 0]]" by (simp add: all_zero_def)
  have c: "''bogus'' \<notin> set supported" by (simp add: supported_def)
  show ?thesis
    using z c nonneglsopt_zero_gram_bypasses_checks [OF z, of pinv_diag 1 "[1, 0]"
        "[- 1, 3]" "''bogus''" 30 "1 / 10 ^ 4" "1 / 10 ^ 4" "1 / 10 ^ 3"]
    by simp
qed

section \<open>Properties of the optimiser\<close>

text \<open>
  C2. The claim: in every iteration the objective after the weight update is at most
  the objective before it. The solver minimises the objective with the ridge added,
  over iterates that are shifted by \<open>eps\<close>, and nothing compares its result with the
  previous weights. For the reduced statistics \<open>wCxxw = 1\<close>, \<open>rCyxw_y = [1, 0]\<close>,
  \<open>rCyyr_yy\<close> the identity (those of one channel, one event type and one lag with
  two levels, the first of which carries the whole signal) and the one-hot seed
  \<open>S_y = [1, 0]\<close>, the previous weights are the minimiser, with objective 0, and the
  update moves away from them.
\<close>

theorem weight_update_increase_counterexample:
  "(case weight_update pinv_diag 1 [1, 0] [[1, 0], [0, 1]] [1, 0] None of
      Inl e \<Rightarrow> False
    | Inr (J_pre, s_new, J_post) \<Rightarrow> J_pre = 0 \<and> J_pre < J_post)"
  by (simp add: weight_update_def solver_demo_onehot vdiv_def objective_def dot_def vecmat_def)

text \<open>
  C2, as amended. In every iteration \<open>J_pre\<close> and \<open>J_post\<close> are the values of the
  same objective, for the same reduced statistics, at the weights before and after the
  update. \<open>J_post \<le> J_pre\<close> holds when the update leaves the weights as they were,
  and so in every iteration of a problem with a single level (\<open>nY = 1\<close>) once
  \<open>S_y = [1]\<close>, which the default initial weights are; with two or more levels the
  update may increase the objective.
\<close>

theorem weight_update_objective_change:
  assumes "weight_update pinv wCxxw rCyxw_y rCyyr_yy s_old syopt = Inr (J_pre, s_new, J_post)"
  shows "J_pre = objective wCxxw rCyxw_y rCyyr_yy s_old
       \<and> J_post = objective wCxxw rCyxw_y rCyyr_yy s_new
       \<and> (s_new = s_old \<longrightarrow> J_post \<le> J_pre)
       \<and> ((\<forall>M. length (pinv M) = length M) \<and> s_old = [1]
            \<and> length rCyxw_y = 1 \<and> length rCyyr_yy = 1 \<and> length (hd rCyyr_yy) = 1
          \<longrightarrow> s_new = [1] \<and> J_post \<le> J_pre)"
proof -
  note o = weight_update_objectives [OF assms]
  have 3: "s_new = s_old \<longrightarrow> J_post \<le> J_pre" using o by simp
  have 4: "s_new = [1]" if h: "\<forall>M. length (pinv M) = length M" "s_old = [1]"
         "length rCyxw_y = 1" "length rCyyr_yy = 1" "length (hd rCyyr_yy) = 1"
  proof -
    from h(3) obtain b where b: "rCyxw_y = [b]" by (cases rCyxw_y) auto
    from h(4) obtain row where r: "rCyyr_yy = [row]" by (cases rCyyr_yy) auto
    with h(5) obtain c where c: "row = [c]" by (cases row) auto
    show ?thesis using weight_update_single_level [OF assms [unfolded b r c h(2)] h(1)] .
  qed
  show ?thesis using o 3 4 by blast
qed

theorem weight_update_objective_change_witness:
  "weight_update pinv_diag 1 [1] [[2]] [1] None = Inr (1, [1], 1)
   \<and> (\<forall>M. length (pinv_diag M) = length M)
   \<and> (1::real) = objective 1 [1] [[2]] [1] \<and> (1::real) \<le> 1"
proof -
  have h: "weight_update pinv_diag 1 [1] [[2]] [1] None = Inr (1, [1], 1)"
    by (simp add: weight_update_def solver_single vdiv_def objective_def dot_def vecmat_def)
  show ?thesis
    using h pinv_diag_length weight_update_objective_change [OF h] by simp
qed

text \<open>
  C6. The claim: without a seed the weights start uniform, \<open>1/nY\<close> each; a seed is
  used as it is; and \<open>J\<close> starts at a \<open>+infinity\<close> sentinel. The code writes
  \<open>J = 1e9\<close>: the initial objective is that finite number. It is not above every
  objective value: an objective of \<open>1e9\<close> after the first pass differs from it by
  less than any positive tolerance.
\<close>

theorem init_J_finite_counterexample:
  "J (init_state 2 None 100) = 10 ^ 9
   \<and> \<not> 10 ^ 9 < J (init_state 2 None 100)
   \<and> \<bar>10 ^ 9 - J (init_state 2 None 100)\<bar> < 1 / 10 ^ 3"
  by (simp add: init_state_def)

text \<open>
  C6, as amended. At the start of a run the weight vector is the caller's seed when
  there is one, and otherwise has \<open>nY\<close> entries, each \<open>1/nY\<close> (which sum to 1 when
  \<open>nY > 0\<close>); the objective \<open>J\<close> is initialised to the finite sentinel \<open>1e9\<close>; no
  iteration has run.
\<close>

theorem init_state_values:
  "S_y (init_state nY None max_iter) = replicate nY (1 / real nY)
   \<and> (0 < nY \<longrightarrow> sum_list (S_y (init_state nY None max_iter)) = 1)
   \<and> S_y (init_state nY (Some s) max_iter) = s
   \<and> J (init_state nY seed max_iter) = 10 ^ 9
   \<and> iter (init_state nY seed max_iter) = None"
  by (simp add: init_state_def sum_list_replicate)

theorem init_state_values_witness:
  "(0::nat) < 4
   \<and> S_y (init_state 4 None 100) = [1 / 4, 1 / 4, 1 / 4, 1 / 4]
   \<and> sum_list (S_y (init_state 4 None 100)) = 1
   \<and> S_y (init_state 4 (Some [1, 0, 0, 0]) 100) = [1, 0, 0, 0]"
proof -
  have r: "replicate 4 (1 / real 4) = [1 / 4, 1 / 4, 1 / 4, 1 / 4]"
    by (simp add: numeral_eq_Suc)
  show ?thesis
    using init_state_values [of 4 100 "[1, 0, 0, 0]" None] r by simp
qed

text \<open>
  C3. The claim: the loop stops at the first iteration boundary at which the L1 change
  of \<open>S_y\<close> or the absolute change of \<open>J\<close> is below \<open>tol\<close>, or after \<open>max_iter\<close>
  passes; and with \<open>tol = 1e9\<close> it makes exactly one pass, for any inputs. The last
  part fails for a seed far from the simplex: on the all-zero inputs \<open>ops_zero\<close>, with
  the seed \<open>S_y = [3e9]\<close>, \<open>tol = 1e9\<close> and \<open>max_iter = 100\<close>, the first pass
  changes \<open>S_y\<close> by \<open>3e9 - 1\<close> and \<open>J\<close> by exactly \<open>1e9\<close>, neither of which is
  below \<open>tol\<close>, and the loop stops after its second pass (\<open>iter = 1\<close>). And with
  \<open>max_iter = 0\<close> no pass is made at all, whatever \<open>tol\<close> is.
\<close>

theorem tol_1e9_two_passes_counterexample:
  "map_sum id iter
     (levels_loop ops_zero 1 None (10 ^ 9) 100 0 (init_state 1 (Some [3 * 10 ^ 9]) 100))
   = Inr (Some 1)
   \<and> map_sum id iter (levels_loop ops_demo 2 None (10 ^ 9) 0 0 (init_state 2 None 0))
   = Inr None"
proof -
  let ?st0 = "init_state 1 (Some [3 * 10 ^ 9]) 100"
  define st1 where "st1 = ?st0\<lparr> S_y := [1], J := 0, Js := (Js ?st0)[0 := Some (0, 0)],
      iter := Some 0, l_k := Some [0], W_kd := Some [[0]], R_ket := Some [[[0]]] \<rparr>"
  define st2 where "st2 = st1\<lparr> S_y := [1], J := 0, Js := (Js st1)[Suc 0 := Some (0, 0)],
      iter := Some (Suc 0), l_k := Some [0], W_kd := Some [[0]], R_ket := Some [[[0]]] \<rparr>"
  have b0: "levels_body ops_zero 1 None 0 ?st0 = Inr st1"
    unfolding st1_def by (rule body_zero [where c = "3 * 10 ^ 9"]) (simp_all add: init_state_def)
  have c0: "\<not> converged (10 ^ 9) ?st0 st1"
    by (simp add: st1_def converged_def deltaS_y_def deltaJ_def init_state_def)
  have b1: "levels_body ops_zero 1 None (Suc 0) st1 = Inr st2"
    unfolding st2_def by (rule body_zero [where c = 1]) (simp_all add: st1_def)
  have c1: "converged (10 ^ 9) st1 st2"
    by (simp add: st1_def st2_def converged_def deltaS_y_def deltaJ_def)
  have "levels_loop ops_zero 1 None (10 ^ 9) 100 0 ?st0
          = levels_loop ops_zero 1 None (10 ^ 9) (100 - 1) (Suc 0) st1"
    by (rule levels_loop_continue [OF _ b0 c0]) simp
  also have "\<dots> = Inr st2"
    by (rule levels_loop_stop [OF _ b1 c1]) simp
  finally have "map_sum id iter (levels_loop ops_zero 1 None (10 ^ 9) 100 0 ?st0) = Inr (Some 1)"
    by (simp add: st2_def)
  then show ?thesis by (simp add: init_state_def)
qed

text \<open>
  C3, as amended. A loop that ends without an exception ends in the state reached
  after some number \<open>k \<le> max_iter\<close> of passes, where \<open>k\<close> is \<open>max_iter\<close> or the test
  \<open>deltaS_y < tol or deltaJ < tol\<close> holds at the end of pass \<open>k\<close>, and the test holds
  at the end of no earlier pass. With \<open>tol = 1e9\<close> and \<open>max_iter\<close> at least 1, such a
  loop makes exactly one pass when the initial weights are the uniform ones (no seed)
  or a seed of the caller whose entries are non-negative and sum to less than
  \<open>1e9 - 1\<close>: every seed on the simplex, a one-hot seed among them.
\<close>

theorem levels_loop_exit:
  assumes "levels_loop ops rank syopt tol max_iter 0 st0 = Inr st"
  shows "(\<exists>k\<le>max_iter. levels_iterate ops rank syopt k 0 st0 = Inr st
            \<and> (k = max_iter \<or> converged_at ops rank syopt tol 0 st0 k)
            \<and> (\<forall>j<k. \<not> converged_at ops rank syopt tol 0 st0 j))
       \<and> (tol = 10 ^ 9 \<and> 0 < max_iter \<and> st0 = init_state nY seed max_iter
            \<and> (case seed of None \<Rightarrow> True
                | Some s \<Rightarrow> (\<forall>x\<in>set s. 0 \<le> x) \<and> sum_list s < 10 ^ 9 - 1)
            \<longrightarrow> iter st = Some 0)"
proof -
  have "iter st = Some 0"
    if h: "tol = 10 ^ 9" "0 < max_iter" "st0 = init_state nY seed max_iter"
      "case seed of None \<Rightarrow> True
       | Some s \<Rightarrow> (\<forall>x\<in>set s. 0 \<le> x) \<and> sum_list s < 10 ^ 9 - 1"
  proof -
    from init_state_seed_bound [OF h(4), of nY max_iter]
    have "\<forall>x\<in>set (S_y st0). 0 \<le> x" "sum_list (S_y st0) < 10 ^ 9 - 1"
      unfolding h(3) by simp_all
    with tol_1e9_one_pass [OF assms [unfolded h(1)] h(2)] show ?thesis .
  qed
  with levels_loop_first_exit [OF assms] show ?thesis by blast
qed

theorem levels_loop_exit_witness:
  "levels_loop ops_demo 2 None (10 ^ 9) 3 0 (init_state 2 (Some [1, 0]) 3)
     = Inr \<lparr> S_y = [10010001 / 10020002, 10001 / 10020002],
             J = 100020001 / 50200220040002,
             Js = [Some (0, 100020001 / 50200220040002), None, None],
             iter = Some 0, l_k = Some [4, 1], W_kd = Some [[1, 0], [0, 1]],
             R_ket = Some [[[1]], [[1]]] \<rparr>
   \<and> levels_loop ops_demo 2 None (10 ^ 9) 3 0 (init_state 2 None 3)
     = Inr \<lparr> S_y = [10010001 / 10020002, 10001 / 10020002],
             J = 100020001 / 50200220040002,
             Js = [Some (1 / 2, 100020001 / 50200220040002), None, None],
             iter = Some 0, l_k = Some [4, 1], W_kd = Some [[1, 0], [0, 1]],
             R_ket = Some [[[1]], [[1]]] \<rparr>
   \<and> (0::nat) < 3
   \<and> list_all (\<lambda>x. 0 \<le> x) [1, 0 :: real] \<and> sum_list [1, 0 :: real] < 10 ^ 9 - 1
   \<and> iter \<lparr> S_y = [10010001 / 10020002, 10001 / 10020002],
             J = 100020001 / 50200220040002,
             Js = [Some (0, 100020001 / 50200220040002), None, None],
             iter = Some 0, l_k = Some [4, 1], W_kd = Some [[1, 0], [0, 1]],
             R_ket = Some [[[1]], [[1]]] \<rparr> = Some 0
   \<and> iter \<lparr> S_y = [10010001 / 10020002, 10001 / 10020002],
             J = 100020001 / 50200220040002,
             Js = [Some (1 / 2, 100020001 / 50200220040002), None, None],
             iter = Some 0, l_k = Some [4, 1], W_kd = Some [[1, 0], [0, 1]],
             R_ket = Some [[[1]], [[1]]] \<rparr> = Some 0"
  using demo_run_seeded levels_loop_exit [OF demo_run_seeded, of 2 "Some [1, 0]"]
    demo_run_tol_1e9 levels_loop_exit [OF demo_run_tol_1e9, of 2 None]
  by simp

text \<open>
  C7. For a rank parameter of at least 1, and an \<open>argsort\<close> that returns a permutation
  of the indices which puts the singular values in ascending order, every pass through
  the loop body of \<open>levelsCCA_cov\<close> leaves in \<open>l_k\<close> the \<open>rank\<close> largest singular
  values that the SVD gave in that pass, in descending order; their number is
  \<open>min rank (number of singular values)\<close>, nothing is padded; and \<open>R_ket\<close> and
  \<open>W_kd\<close> are the un-whitened responses and filters taken at the same, distinct,
  indices. A call of \<open>levelsCCA_cov\<close> that returns has made at least one pass, every
  one of its passes has retained components in this way, and what it returns is the
  rescaling of the components that its last pass retained.
\<close>

theorem levelsCCA_cov_retains_top_rank:
  assumes perm: "\<forall>l. sort (argsort_op ops l) = [0..<length l]"
      and asc: "\<forall>l. sorted (map (\<lambda>i. l ! i) (argsort_op ops l))"
      and rank: "1 \<le> rank"
  shows "(levels_body ops (nat (max 1 rank)) syopt it pre = Inr post
            \<longrightarrow> top_rank_retained ops (nat rank) pre post)
       \<and> (levelsCCA_cov ops nY seed rank tol max_iter syopt = Inr (Jf, Wf, Rf, Sf)
            \<longrightarrow> (\<exists>k prev st l W R. k < max_iter
                   \<and> levels_loop ops (nat (max 1 rank)) syopt tol max_iter 0
                        (init_state nY seed max_iter) = Inr st
                   \<and> levels_iterate ops (nat (max 1 rank)) syopt k 0
                        (init_state nY seed max_iter) = Inr prev
                   \<and> levels_body ops (nat (max 1 rank)) syopt k prev = Inr st
                   \<and> (\<forall>j\<le>k. \<exists>p q.
                          levels_iterate ops (nat (max 1 rank)) syopt j 0
                             (init_state nY seed max_iter) = Inr p
                        \<and> levels_body ops (nat (max 1 rank)) syopt j p = Inr q
                        \<and> levels_iterate ops (nat (max 1 rank)) syopt (Suc j) 0
                             (init_state nY seed max_iter) = Inr q
                        \<and> top_rank_retained ops (nat rank) p q)
                   \<and> l_k st = Some l \<and> W_kd st = Some W \<and> R_ket st = Some R
                   \<and> l = take (nat rank) (rev (sort (fst (snd (svd_step ops (S_y prev))))))
                   \<and> length l = min (nat rank) (length (fst (snd (svd_step ops (S_y prev)))))
                   \<and> rescale l W R = Inr (Wf, Rf)))"
proof -
  let ?r = "nat (max 1 rank)"
  let ?st0 = "init_state nY seed max_iter"
  have r: "?r = nat rank" using rank by simp
  have 1: "levels_body ops ?r syopt it pre = Inr post
            \<longrightarrow> top_rank_retained ops (nat rank) pre post"
    using levels_body_retains [OF perm asc, of ?r syopt it pre post] r by simp
  have 2: "\<exists>k prev st l W R. k < max_iter
                   \<and> levels_loop ops ?r syopt tol max_iter 0 ?st0 = Inr st
                   \<and> levels_iterate ops ?r syopt k 0 ?st0 = Inr prev
                   \<and> levels_body ops ?r syopt k prev = Inr st
                   \<and> (\<forall>j\<le>k. \<exists>p q.
                          levels_iterate ops ?r syopt j 0 ?st0 = Inr p
                        \<and> levels_body ops ?r syopt j p = Inr q
                        \<and> levels_iterate ops ?r syopt (Suc j) 0 ?st0 = Inr q
                        \<and> top_rank_retained ops (nat rank) p q)
                   \<and> l_k st = Some l \<and> W_kd st = Some W \<and> R_ket st = Some R
                   \<and> l = take (nat rank) (rev (sort (fst (snd (svd_step ops (S_y prev))))))
                   \<and> length l = min (nat rank) (length (fst (snd (svd_step ops (S_y prev)))))
                   \<and> rescale l W R = Inr (Wf, Rf)"
    if run: "levelsCCA_cov ops nY seed rank tol max_iter syopt = Inr (Jf, Wf, Rf, Sf)"
  proof -
    from levelsCCA_cov_Inr [OF run] obtain st l W R where
      lp: "levels_loop ops ?r syopt tol max_iter 0 ?st0 = Inr st"
      and f: "l_k st = Some l" "W_kd st = Some W" "R_ket st = Some R"
      and rs: "rescale l W R = Inr (Wf, Rf)" by blast
    from levels_loop_first_exit [OF lp] obtain k' where
      k': "k' \<le> max_iter" "levels_iterate ops ?r syopt k' 0 ?st0 = Inr st" by blast
    have "k' \<noteq> 0"
    proof
      assume "k' = 0"
      then have "st = ?st0" using k'(2) by simp
      then show False using f(1) by (simp add: init_state_def)
    qed
    then obtain k where k: "k' = Suc k" by (cases k') auto
    have ps: "\<forall>j\<le>k. \<exists>p q.
                  levels_iterate ops ?r syopt j 0 ?st0 = Inr p
                \<and> levels_body ops ?r syopt j p = Inr q
                \<and> levels_iterate ops ?r syopt (Suc j) 0 ?st0 = Inr q
                \<and> top_rank_retained ops (nat rank) p q"
    proof (intro allI impI)
      fix j assume "j \<le> k"
      then have "j < k'" using k by simp
      with levels_iterate_passes [OF k'(2)] obtain p q where
        pq: "levels_iterate ops ?r syopt j 0 ?st0 = Inr p"
        "levels_body ops ?r syopt j p = Inr q"
        "levels_iterate ops ?r syopt (Suc j) 0 ?st0 = Inr q" by auto
      have "top_rank_retained ops (nat rank) p q"
        using levels_body_retains [OF perm asc pq(2)] r by simp
      with pq show "\<exists>p q.
                  levels_iterate ops ?r syopt j 0 ?st0 = Inr p
                \<and> levels_body ops ?r syopt j p = Inr q
                \<and> levels_iterate ops ?r syopt (Suc j) 0 ?st0 = Inr q
                \<and> top_rank_retained ops (nat rank) p q" by blast
    qed
    then obtain prev q where
      pq: "levels_iterate ops ?r syopt k 0 ?st0 = Inr prev"
      "levels_body ops ?r syopt k prev = Inr q"
      "levels_iterate ops ?r syopt (Suc k) 0 ?st0 = Inr q"
      "top_rank_retained ops (nat rank) prev q" by blast
    have q: "q = st" using pq(3) k'(2) k by simp
    have l: "l = take (nat rank) (rev (sort (fst (snd (svd_step ops (S_y prev))))))"
      using pq(4) f(1) unfolding q
      by (auto simp: top_rank_retained_def Let_def split: prod.splits)
    have n: "length l = min (nat rank) (length (fst (snd (svd_step ops (S_y prev)))))"
      unfolding l by (simp add: min.commute)
    have "k < max_iter" using k'(1) k by simp
    with lp pq(1) pq(2) [unfolded q] ps f l n rs show ?thesis by blast
  qed
  from 1 2 show ?thesis by blast
qed

theorem levelsCCA_cov_retains_top_rank_witness:
  "(\<forall>l. sort (argsort_op ops_demo l) = [0..<length l])
   \<and> (\<forall>l. sorted (map (\<lambda>i. l ! i) (argsort_op ops_demo l)))
   \<and> (1::int) \<le> 1 \<and> (1::int) \<le> 3
   \<and> svd_step ops_demo (S_y (init_state 2 None 3)) = ([[[1]], [[1]]], [4, 1], [[1, 0], [0, 1]])
   \<and> levels_body ops_demo (nat (max 1 1)) None 0 (init_state 2 None 3)
     = Inr \<lparr> S_y = [10010001 / 10020002, 10001 / 10020002],
             J = 100020001 / 50200220040002,
             Js = [Some (1 / 2, 100020001 / 50200220040002), None, None],
             iter = Some 0, l_k = Some [4], W_kd = Some [[1, 0]],
             R_ket = Some [[[1]]] \<rparr>
   \<and> top_rank_retained ops_demo (nat 1) (init_state 2 None 3)
        \<lparr> S_y = [10010001 / 10020002, 10001 / 10020002],
             J = 100020001 / 50200220040002,
             Js = [Some (1 / 2, 100020001 / 50200220040002), None, None],
             iter = Some 0, l_k = Some [4], W_kd = Some [[1, 0]],
             R_ket = Some [[[1]]] \<rparr>
   \<and> levels_body ops_demo (nat (max 1 3)) None 0 (init_state 2 None 3)
     = Inr \<lparr> S_y = [10010001 / 10020002, 10001 / 10020002],
             J = 100020001 / 50200220040002,
             Js = [Some (1 / 2, 100020001 / 50200220040002), None, None],
             iter = Some 0, l_k = Some [4, 1], W_kd = Some [[1, 0], [0, 1]],
             R_ket = Some [[[1]], [[1]]] \<rparr>
   \<and> top_rank_retained ops_demo (nat 3) (init_state 2 None 3)
        \<lparr> S_y = [10010001 / 10020002, 10001 / 10020002],
             J = 100020001 / 50200220040002,
             Js = [Some (1 / 2, 100020001 / 50200220040002), None, None],
             iter = Some 0, l_k = Some [4, 1], W_kd = Some [[1, 0], [0, 1]],
             R_ket = Some [[[1]], [[1]]] \<rparr>
   \<and> levelsCCA_cov ops_demo 2 None 1 (1 / 10 ^ 3) 3 None
     = Inr (100020001 / 50200220040002, [[1, 0]], [[[1]]],
            [10010001 / 10020002, 10001 / 10020002])
   \<and> (\<exists>k prev st. k < 3
        \<and> levels_loop ops_demo (nat (max 1 1)) None (1 / 10 ^ 3) 3 0 (init_state 2 None 3)
            = Inr st
        \<and> levels_body ops_demo (nat (max 1 1)) None k prev = Inr st
        \<and> l_k st = Some (take (nat 1) (rev (sort (fst (snd (svd_step ops_demo (S_y prev))))))))"
proof -
  have a: "\<forall>l. sort (argsort_op ops_demo l) = [0..<length l]"
    and b: "\<forall>l. sorted (map (\<lambda>i. l ! i) (argsort_op ops_demo l))"
    using ops_demo_argsort by simp_all
  have c1: "(1::int) \<le> 1" and c3: "(1::int) \<le> 3" by simp_all
  have s: "svd_step ops_demo (S_y (init_state 2 None 3))
             = ([[[1]], [[1]]], [4, 1], [[1, 0], [0, 1]])"
    by (simp add: ops_demo_def)
  note t1 = levelsCCA_cov_retains_top_rank [OF a b c1, of None 0 "init_state 2 None 3"
      _ 2 None "1 / 10 ^ 3" 3 "100020001 / 50200220040002" "[[1, 0]]" "[[[1]]]"
      "[10010001 / 10020002, 10001 / 10020002]"]
  note t3 = levelsCCA_cov_retains_top_rank [OF a b c3, of None 0 "init_state 2 None 3"]
  from t1 body_demo_rank1_0 have r1: "top_rank_retained ops_demo (nat 1) (init_state 2 None 3)
        \<lparr> S_y = [10010001 / 10020002, 10001 / 10020002],
             J = 100020001 / 50200220040002,
             Js = [Some (1 / 2, 100020001 / 50200220040002), None, None],
             iter = Some 0, l_k = Some [4], W_kd = Some [[1, 0]],
             R_ket = Some [[[1]]] \<rparr>" by blast
  from t3 body_demo_rank3_0 have r3: "top_rank_retained ops_demo (nat 3) (init_state 2 None 3)
        \<lparr> S_y = [10010001 / 10020002, 10001 / 10020002],
             J = 100020001 / 50200220040002,
             Js = [Some (1 / 2, 100020001 / 50200220040002), None, None],
             iter = Some 0, l_k = Some [4, 1], W_kd = Some [[1, 0], [0, 1]],
             R_ket = Some [[[1]], [[1]]] \<rparr>" by blast
  from t1 demo_levelsCCA_cov_rank1 have
    "\<exists>k prev st. k < 3
        \<and> levels_loop ops_demo (nat (max 1 1)) None (1 / 10 ^ 3) 3 0 (init_state 2 None 3)
            = Inr st
        \<and> levels_body ops_demo (nat (max 1 1)) None k prev = Inr st
        \<and> l_k st = Some (take (nat 1) (rev (sort (fst (snd (svd_step ops_demo (S_y prev)))))))"
    by blast
  with a b c1 c3 s r1 r3 body_demo_rank1_0 body_demo_rank3_0 demo_levelsCCA_cov_rank1
  show ?thesis by blast
qed

text \<open>
  C8. After the loop, the filters and responses that are returned are those of the last
  iteration, each component \<open>k\<close> multiplied by \<open>sqrt (l_k / max l)\<close>, where \<open>l\<close> are
  the singular values kept; a component whose singular value is the largest has
  factor 1; and when the largest singular value is zero every factor is 1. (The
  singular values are non-negative, there is at least one of them, and \<open>W_kd\<close> and
  \<open>R_ket\<close> have one entry per component.)
\<close>

theorem levelsCCA_cov_rescaled:
  assumes run: "levels_loop ops (nat (max 1 rank)) syopt tol max_iter 0
                   (init_state nY seed max_iter) = Inr st"
      and bound: "l_k st = Some l" "W_kd st = Some W" "R_ket st = Some R"
      and ne: "l \<noteq> []" and nn: "\<forall>x\<in>set l. 0 \<le> x"
      and len: "length W = length l" "length R = length l"
  shows "\<exists>W' R'. levelsCCA_cov ops nY seed rank tol max_iter syopt = Inr (J st, W', R', S_y st)
           \<and> length W' = length l \<and> length R' = length l
           \<and> (\<forall>k<length l. W' ! k = map (\<lambda>w. w * component_scale l k) (W ! k)
                          \<and> R' ! k = map (map (\<lambda>x. x * component_scale l k)) (R ! k)
                          \<and> (l ! k = Max (set l) \<longrightarrow> component_scale l k = 1)
                          \<and> (Max (set l) = 0 \<longrightarrow> component_scale l k = 1))"
proof -
  from rescale_nth [OF ne nn len] obtain W' R' where
    r: "rescale l W R = Inr (W', R')" "length W' = length l" "length R' = length l"
    "\<forall>k<length l. W' ! k = map (\<lambda>w. w * component_scale l k) (W ! k)
                 \<and> R' ! k = map (map (\<lambda>x. x * component_scale l k)) (R ! k)" by blast
  have "levelsCCA_cov ops nY seed rank tol max_iter syopt = Inr (J st, W', R', S_y st)"
    by (simp add: levelsCCA_cov_def run bound r(1))
  moreover have "\<forall>k<length l. (l ! k = Max (set l) \<longrightarrow> component_scale l k = 1)
                           \<and> (Max (set l) = 0 \<longrightarrow> component_scale l k = 1)"
    by (simp add: component_scale_def)
  ultimately show ?thesis using r(2,3,4) by (intro exI [of _ W'] exI [of _ R']) simp
qed

theorem levelsCCA_cov_rescaled_witness:
  "levels_loop ops_demo (nat (max 1 2)) None (1 / 10 ^ 3) 3 0 (init_state 2 None 3)
     = Inr \<lparr> S_y = [10010001 / 10020002, 10001 / 10020002],
             J = 100020001 / 50200220040002,
             Js = [Some (1 / 2, 100020001 / 50200220040002),
                   Some (100020001 / 50200220040002, 100020001 / 50200220040002), None],
             iter = Some 1, l_k = Some [4, 1], W_kd = Some [[1, 0], [0, 1]],
             R_ket = Some [[[1]], [[1]]] \<rparr>
   \<and> levelsCCA_cov ops_demo 2 None 2 (1 / 10 ^ 3) 3 None
     = Inr (100020001 / 50200220040002, [[1, 0], [0, 1 / 2]], [[[1]], [[1 / 2]]],
            [10010001 / 10020002, 10001 / 10020002])"
proof -
  let ?st = "\<lparr> S_y = [10010001 / 10020002, 10001 / 10020002 :: real],
             J = 100020001 / 50200220040002,
             Js = [Some (1 / 2, 100020001 / 50200220040002),
                   Some (100020001 / 50200220040002, 100020001 / 50200220040002), None],
             iter = Some 1, l_k = Some [4, 1], W_kd = Some [[1, 0], [0, 1]],
             R_ket = Some [[[1]], [[1]]] \<rparr>"
  note h = demo_run
  have b: "l_k ?st = Some [4, 1]" "W_kd ?st = Some [[1, 0], [0, 1]]"
    "R_ket ?st = Some [[[1]], [[1]]]" by simp_all
  have ne: "[4, 1] \<noteq> ([] :: real list)" by simp
  have nn: "\<forall>x\<in>set [4, 1 :: real]. 0 \<le> x" by simp
  have len: "length [[1, 0], [0, 1 :: real]] = length [4, 1 :: real]"
    "length [[[1]], [[1 :: real]]] = length [4, 1 :: real]" by simp_all
  have sc: "component_scale [4, 1] 0 = 1" "component_scale [4, 1] (Suc 0) = 1 / 2"
    by (simp_all add: component_scale_def real_sqrt_divide)
  from levelsCCA_cov_rescaled [OF h b ne nn len]
  obtain W' R' where
    r: "levelsCCA_cov ops_demo 2 None 2 (1 / 10 ^ 3) 3 None
          = Inr (J ?st, W', R', S_y ?st)"
      "length W' = length [4, 1 :: real]" "length R' = length [4, 1 :: real]"
      "\<forall>k<length [4, 1 :: real].
          W' ! k = map (\<lambda>w. w * component_scale [4, 1] k) ([[1, 0], [0, 1]] ! k)
        \<and> R' ! k = map (map (\<lambda>x. x * component_scale [4, 1] k)) ([[[1]], [[1]]] ! k)"
    by blast
  have l2: "length W' = Suc (Suc 0)" "length R' = Suc (Suc 0)" using r(2,3) by simp_all
  have "W' = [W' ! 0, W' ! Suc 0]" "R' = [R' ! 0, R' ! Suc 0]"
    using l2 by (auto simp: list_eq_iff_nth_eq less_Suc_eq)
  moreover have "W' ! 0 = [1, 0]" "W' ! Suc 0 = [0, 1 / 2]"
    "R' ! 0 = [[1]]" "R' ! Suc 0 = [[1 / 2]]"
    using r(4) sc by simp_all
  ultimately have "W' = [[1, 0], [0, 1 / 2]]" "R' = [[[1]], [[1 / 2]]]" by simp_all
  then show ?thesis using h r(1) by simp
qed

text \<open>
  C9. A complete run of \<open>levelsCCA_cov\<close> leaves every array that existed before the
  call as it was, in particular its inputs \<open>Cxx_dd\<close>, \<open>Cyx_yetd\<close>, \<open>Cyy_tyeye\<close>
  (and a seed \<open>S_y\<close>); a complete run of \<open>nonneglsopt\<close> does the same, in particular
  for its input \<open>C_yy\<close>: the ridge goes into a new array. What a run writes in place
  is its own trace buffer; \<open>S_y\<close> and \<open>J\<close> are rebound to new values.
\<close>

theorem runs_leave_inputs_unchanged:
  "(levelsCCA_cov_h num a_xx a_yx a_yy seed rank tol max_iter syopt h = Inr (res, h')
      \<longrightarrow> unchanged h h' \<and> (\<forall>a<length h. h' ! a = h ! a))
   \<and> (nonneglsopt_h pinv C_xx b_yx b_yy b_s mode n tol' ridge eps g = Inr (b, g')
      \<longrightarrow> unchanged g g' \<and> (\<forall>a<length g. g' ! a = g ! a))"
  using levelsCCA_cov_h_unchanged [of num a_xx a_yx a_yy seed rank tol max_iter syopt h res h']
    nonneglsopt_h_unchanged [of pinv C_xx b_yx b_yy b_s mode n tol' ridge eps g b g']
    unchanged_nth [of h h'] unchanged_nth [of g g']
  by blast

theorem runs_leave_inputs_unchanged_witness:
  "levelsCCA_cov_h num_zero 0 1 2 None 1 (1 / 10 ^ 3) 2 None heap_zero
     = Inr ((0, 15, 16, 14), heap_zero_run)
   \<and> nonneglsopt_h pinv_diag 1 0 1 2 None 30 (1 / 10 ^ 4) (1 / 10 ^ 4) (1 / 10 ^ 3) heap_solver
     = Inr (7, heap_solver @ [Mat [[20001 / 10000]], Vec [10000 / 20001], Vec [1],
                              Vec [1], Vec [1]])
   \<and> unchanged heap_zero heap_zero_run
   \<and> heap_zero_run ! 0 = heap_zero ! 0 \<and> heap_zero_run ! 1 = heap_zero ! 1
   \<and> heap_zero_run ! 2 = heap_zero ! 2
   \<and> (heap_solver @ [Mat [[20001 / 10000]], Vec [10000 / 20001], Vec [1], Vec [1], Vec [1]]) ! 1
       = heap_solver ! 1"
proof -
  note t = runs_leave_inputs_unchanged [of num_zero 0 1 2 None 1 "1 / 10 ^ 3" 2 None heap_zero
      "(0, 15, 16, 14)" heap_zero_run pinv_diag 1 0 1 2 None 30 "1 / 10 ^ 4" "1 / 10 ^ 4"
      "1 / 10 ^ 3" heap_solver 7
      "heap_solver @ [Mat [[20001 / 10000]], Vec [10000 / 20001], Vec [1], Vec [1], Vec [1]]"]
  have l: "length heap_zero = 3" "length heap_solver = 3"
    by (simp_all add: heap_zero_def heap_solver_def)
  from t run_zero run_solver have
    u: "unchanged heap_zero heap_zero_run"
    and a: "\<forall>a<length heap_zero. heap_zero_run ! a = heap_zero ! a"
    and b: "\<forall>a<length heap_solver.
          (heap_solver @ [Mat [[20001 / 10000]], Vec [10000 / 20001], Vec [1], Vec [1], Vec [1]]) ! a
          = heap_solver ! a"
    by blast+
  show ?thesis using run_zero run_solver u a b l by simp
qed


end
